theory Spec2Isabelle
  imports Complex_Main "HOL-Library.Word" "HOL-Library.Sublist" "HOL-Library.List_Lexorder"
begin

section \<open>JavaScript values\<close>

text \<open>
  The server (\<^verbatim>\<open>src/unnamed/part_001\<close>) is a set of Hono request handlers over
  JSON documents. A JavaScript string is a sequence of 16-bit code units; \<open>js\<close> writes an
  ASCII literal of the source, and the Cyrillic literals are given by their code units.
  A JSON number is the rational value of the double it denotes. A JSON object is the list
  of its own enumerable properties in enumeration order (the order of \<^verbatim>\<open>Object.keys\<close>),
  with distinct names. JavaScript's \<^verbatim>\<open>undefined\<close> is \<open>None\<close>.
\<close>

type_synonym jsstring = "16 word list"

definition js :: "string \<Rightarrow> jsstring" where
  "js s = map of_char s"

datatype json =
    JNull
  | JBool bool
  | JNum rat
  | JStr jsstring
  | JArr "json list"
  | JObj "(jsstring \<times> json) list"

type_synonym obj = "(jsstring \<times> json) list"

text \<open>Truthiness, as tested by \<^verbatim>\<open>!x\<close>, \<^verbatim>\<open>x && y\<close> and \<^verbatim>\<open>x || y\<close>.\<close>

fun truthy :: "json option \<Rightarrow> bool" where
  "truthy None = False"
| "truthy (Some JNull) = False"
| "truthy (Some (JBool b)) = b"
| "truthy (Some (JNum n)) = (n \<noteq> 0)"
| "truthy (Some (JStr s)) = (s \<noteq> [])"
| "truthy (Some (JArr xs)) = True"
| "truthy (Some (JObj fs)) = True"

text \<open>
  \<^verbatim>\<open>d.name\<close> on a document, and \<^verbatim>\<open>const { name } = value\<close> on a parsed body that is
  not \<^verbatim>\<open>null\<close>. The names the handlers read (status, priority, dueDate, comments, role,
  title, ...) are defined on no prototype, so the read is a lookup among the own
  properties, and a primitive or an array has none of them.
\<close>

definition field :: "obj \<Rightarrow> jsstring \<Rightarrow> json option" where
  "field d k = map_of d k"

fun get_prop :: "json \<Rightarrow> jsstring \<Rightarrow> json option" where
  "get_prop (JObj fs) k = field fs k"
| "get_prop v k = None"

text \<open>
  Writing a property: \<^verbatim>\<open>o[k] = v\<close>, one step of a spread, and the upsert of the
  key-value table. An existing name keeps its place, a new one goes last.
\<close>

fun upsert :: "'k \<Rightarrow> 'v \<Rightarrow> ('k \<times> 'v) list \<Rightarrow> ('k \<times> 'v) list" where
  "upsert k v [] = [(k, v)]"
| "upsert k v (p # ps) = (if fst p = k then (k, v) # ps else p # upsert k v ps)"

text \<open>\<^verbatim>\<open>{...a, ...b}\<close>: the properties of \<open>b\<close> written onto \<open>a\<close> in order.\<close>

definition spread :: "obj \<Rightarrow> obj \<Rightarrow> obj" where
  "spread a b = foldl (\<lambda>acc (k, v). upsert k v acc) a b"

text \<open>
  An object literal \<^verbatim>\<open>{k1: v1, ..., kn: vn}\<close> with distinct names, as it is serialised:
  a property whose value is \<^verbatim>\<open>undefined\<close> is left out by \<^verbatim>\<open>JSON.stringify\<close>.
\<close>

definition obj_lit :: "(jsstring \<times> json option) list \<Rightarrow> obj" where
  "obj_lit ps = List.map_filter (\<lambda>(k, v). map_option (Pair k) v) ps"

text \<open>\<^verbatim>\<open>Array.prototype.join\<close> on strings, and \<^verbatim>\<open>String.prototype.split\<close> at one code unit.\<close>

fun join :: "jsstring \<Rightarrow> jsstring list \<Rightarrow> jsstring" where
  "join sep [] = []"
| "join sep [x] = x"
| "join sep (x # y # ys) = x @ sep @ join sep (y # ys)"

fun split :: "16 word \<Rightarrow> jsstring \<Rightarrow> jsstring list" where
  "split c [] = [[]]"
| "split c (x # xs) =
     (if x = c then [] # split c xs
      else (case split c xs of [] \<Rightarrow> [[x]] | w # ws \<Rightarrow> (x # w) # ws))"

text \<open>
  What the JavaScript engine supplies and the repository does not define: the rendering of
  a number as a string, and the time value (milliseconds since the epoch) of
  \<^verbatim>\<open>new Date(v)\<close> for a value that converts to a primitive, \<open>None\<close> for an invalid
  date.
\<close>

record engine =
  number_to_string :: "rat \<Rightarrow> jsstring"
  date_time :: "json \<Rightarrow> int option"

text \<open>
  \<^verbatim>\<open>String(v)\<close>, which turns a value used as \<^verbatim>\<open>o[v]\<close> into a property name, or
  gives \<^verbatim>\<open>new Date(v)\<close> the string it parses; \<open>None\<close> is a TypeError. A parsed
  object is converted by the \<^verbatim>\<open>toString\<close> it inherits, unless it has an own
  property \<^verbatim>\<open>toString\<close>: that one hides the inherited method and, coming from JSON,
  cannot be called, and \<^verbatim>\<open>valueOf\<close> returns the object itself, so the conversion
  throws. An array joins the strings of its elements with commas, \<^verbatim>\<open>null\<close> elements
  as the empty string, and throws when an element does.
\<close>

fun to_string :: "engine \<Rightarrow> json \<Rightarrow> jsstring option" where
  "to_string E JNull = Some (js ''null'')"
| "to_string E (JBool b) = Some (if b then js ''true'' else js ''false'')"
| "to_string E (JNum n) = Some (number_to_string E n)"
| "to_string E (JStr s) = Some s"
| "to_string E (JArr xs) =
     map_option (join (js '',''))
       (those (map (\<lambda>x. if x = JNull then Some [] else to_string E x) xs))"
| "to_string E (JObj fs) =
     (case field fs (js ''toString'') of
        None \<Rightarrow> Some (js ''[object Object]'')
      | Some own \<Rightarrow> None)"

definition property_key :: "engine \<Rightarrow> json option \<Rightarrow> jsstring option" where
  "property_key E v = (case v of None \<Rightarrow> Some (js ''undefined'') | Some x \<Rightarrow> to_string E x)"

text \<open>
  \<^verbatim>\<open>new Date(v)\<close> on a stored value: a TypeError (\<open>None\<close>) when \<open>v\<close> does not
  convert to a primitive, otherwise a date, valid or not.
\<close>

definition Date_of :: "engine \<Rightarrow> json \<Rightarrow> int option option" where
  "Date_of E v = (case to_string E v of None \<Rightarrow> None | Some s \<Rightarrow> Some (date_time E v))"

section \<open>The key-value store\<close>

text \<open>
  The module \<^verbatim>\<open>./kv_store.tsx\<close> that the server imports is not among the sources; the
  spec gives its contract. The table is a list of rows with distinct keys. Every
  \<^verbatim>\<open>kv.set\<close> of the server stores an object (an object literal, or a document that
  \<^verbatim>\<open>kv.get\<close> returned), so a document is an \<open>obj\<close>. The operations are taken to
  succeed; a failing store makes a handler answer 500 from its \<^verbatim>\<open>catch\<close>.
\<close>

type_synonym kv = "(jsstring \<times> obj) list"

text \<open>
  Modelled from the spec: \<^verbatim>\<open>get\<close> of the missing \<^verbatim>\<open>kv_store.tsx\<close>,
  \<open>get(key) \<rightarrow> document | absent\<close>.
\<close>

definition kv_get :: "kv \<Rightarrow> jsstring \<Rightarrow> obj option" where
  "kv_get s k = map_of s k"

text \<open>
  Modelled from the spec: \<^verbatim>\<open>set\<close> of the missing \<^verbatim>\<open>kv_store.tsx\<close>,
  \<open>set(key, document) \<rightarrow> ok\<close>; the document replaces the one stored under the key.
\<close>

definition kv_set :: "jsstring \<Rightarrow> obj \<Rightarrow> kv \<Rightarrow> kv" where
  "kv_set k d s = upsert k d s"

text \<open>
  Modelled from the spec: \<^verbatim>\<open>getByPrefix\<close> of the missing \<^verbatim>\<open>kv_store.tsx\<close>,
  \<open>getByPrefix(prefix) \<rightarrow> sequence of document\<close>, the documents whose key starts with
  the prefix, in no promised order (here the order of the rows) and without duplicates.
\<close>

definition kv_getByPrefix :: "jsstring \<Rightarrow> kv \<Rightarrow> obj list" where
  "kv_getByPrefix p s = map snd (filter (\<lambda>row. prefix p (fst row)) s)"

section \<open>Requests, responses and authentication\<close>

text \<open>
  A request carries the \<^verbatim>\<open>Authorization\<close> header (if any), the result of
  \<^verbatim>\<open>await c.req.json()\<close> (\<open>None\<close> when the body is not JSON and the call throws) and the
  \<^verbatim>\<open>:id\<close> of the path. A response is \<^verbatim>\<open>c.json(payload, code)\<close>.
\<close>

record request =
  authorization :: "jsstring option"
  body :: "json option"
  param_id :: jsstring

record response =
  code :: nat
  payload :: json

text \<open>
  The identity that the Authenticator resolves a token to: the handlers read its
  \<^verbatim>\<open>id\<close>; \<open>as_json\<close> is the identity as it is sent in a response.
\<close>

record auth_user =
  uid :: jsstring
  as_json :: json

type_synonym authenticator = "jsstring \<Rightarrow> auth_user option"

text \<open>\<^verbatim>\<open>c.req.header('Authorization')?.split(' ')[1]\<close>\<close>

definition accessToken :: "request \<Rightarrow> jsstring option" where
  "accessToken req =
     (case authorization req of
        None \<Rightarrow> None
      | Some h \<Rightarrow> (case split 0x20 h of _ # t # _ \<Rightarrow> Some t | _ \<Rightarrow> None))"

definition error_response :: "nat \<Rightarrow> string \<Rightarrow> response" where
  "error_response n msg = \<lparr>code = n, payload = JObj [(js ''error'', JStr (js msg))]\<rparr>"

text \<open>
  The first lines of every authenticated handler: 401 when the token is missing or empty,
  401 when \<^verbatim>\<open>verifyAuth\<close> resolves no user.
\<close>

definition authenticate :: "authenticator \<Rightarrow> request \<Rightarrow> response + auth_user" where
  "authenticate verifyAuth req =
     (case accessToken req of
        None \<Rightarrow> Inl (error_response 401 ''Unauthorized'')
      | Some tok \<Rightarrow>
          if tok = [] then Inl (error_response 401 ''Unauthorized'')
          else (case verifyAuth tok of
                  None \<Rightarrow> Inl (error_response 401 ''Unauthorized'')
                | Some user \<Rightarrow> Inr user))"

section \<open>Analytics\<close>

text \<open>
  \<^verbatim>\<open>statusCount\<close> and \<^verbatim>\<open>priorityCount\<close> start as \<^verbatim>\<open>{}\<close>, an object whose prototype
  is \<^verbatim>\<open>Object.prototype\<close>. A cell of such an object holds a number or, once
  \<^verbatim>\<open>+ 1\<close> has met a value that is not a number, a string.
\<close>

datatype cell = CNum nat | CStr jsstring

type_synonym counts = "(jsstring \<times> cell) list"

text \<open>
  The properties every \<^verbatim>\<open>{}\<close> inherits, and the string each becomes under \<^verbatim>\<open>+\<close>
  (V8, the engine of Deno, prints a built-in function as below; \<^verbatim>\<open>__proto__\<close> reads
  as \<^verbatim>\<open>Object.prototype\<close> itself).
\<close>

definition native_function :: "string \<Rightarrow> jsstring" where
  "native_function name = js (''function '' @ name @ ''() { [native code] }'')"

definition object_prototype :: "(jsstring \<times> jsstring) list" where
  "object_prototype =
     [(js ''constructor'', native_function ''Object''),
      (js ''__defineGetter__'', native_function ''__defineGetter__''),
      (js ''__defineSetter__'', native_function ''__defineSetter__''),
      (js ''hasOwnProperty'', native_function ''hasOwnProperty''),
      (js ''__lookupGetter__'', native_function ''__lookupGetter__''),
      (js ''__lookupSetter__'', native_function ''__lookupSetter__''),
      (js ''isPrototypeOf'', native_function ''isPrototypeOf''),
      (js ''propertyIsEnumerable'', native_function ''propertyIsEnumerable''),
      (js ''toString'', native_function ''toString''),
      (js ''valueOf'', native_function ''valueOf''),
      (js ''__proto__'', js ''[object Object]''),
      (js ''toLocaleString'', native_function ''toLocaleString'')]"

text \<open>
  \<^verbatim>\<open>(counts[k] || 0) + 1\<close>: an own number is incremented; an own string, or an
  inherited function or object (both truthy), is concatenated with \<^verbatim>\<open>"1"\<close>; a
  name found nowhere reads \<^verbatim>\<open>undefined\<close> and gives 1.
\<close>

definition next_cell :: "counts \<Rightarrow> jsstring \<Rightarrow> cell" where
  "next_cell c k =
     (case map_of c k of
        Some (CNum n) \<Rightarrow> CNum (n + 1)
      | Some (CStr s) \<Rightarrow> if s = [] then CNum 1 else CStr (s @ js ''1'')
      | None \<Rightarrow>
          (case map_of object_prototype k of
             Some inherited \<Rightarrow> CStr (inherited @ js ''1'')
           | None \<Rightarrow> CNum 1))"

text \<open>
  \<^verbatim>\<open>counts[k] = v\<close>: the inherited properties are writable, so the assignment makes
  an own property, except for \<^verbatim>\<open>__proto__\<close>, whose setter ignores a value that is
  neither an object nor \<^verbatim>\<open>null\<close>.
\<close>

definition set_cell :: "jsstring \<Rightarrow> cell \<Rightarrow> counts \<Rightarrow> counts" where
  "set_cell k v c = (if k = js ''__proto__'' then c else upsert k v c)"

definition bump :: "jsstring \<Rightarrow> counts \<Rightarrow> counts" where
  "bump k c = set_cell k (next_cell c k) c"

definition closed :: jsstring where
  "closed = [0x417, 0x430, 0x43A, 0x440, 0x44B, 0x442, 0x430]"

record analytics =
  totalDefects :: nat
  overdue :: nat
  statusCount :: counts
  priorityCount :: counts

text \<open>
  The body of the \<^verbatim>\<open>for\<close> loop of the analytics handler, in the order of the source:
  the total, the two counts (each needs a property name, which may throw), then the
  overdue test. \<^verbatim>\<open>new Date(defect.dueDate)\<close> is built only for a truthy dueDate and
  may throw; \<^verbatim>\<open>new Date()\<close> is then read from the wall clock, \<open>clock n\<close> being the
  reading of the \<open>n\<close>-th such call of the request (from 0). The comparison
  \<^verbatim>\<open><\<close> is false for an invalid date. \<open>None\<close> is an exception, which leaves the loop.
\<close>

definition analytics_step ::
  "engine \<Rightarrow> (nat \<Rightarrow> int) \<Rightarrow> obj \<Rightarrow> nat \<times> analytics \<Rightarrow> (nat \<times> analytics) option" where
  "analytics_step E clock defect st =
     (case st of
        (n, a) \<Rightarrow>
          (case property_key E (field defect (js ''status'')) of
             None \<Rightarrow> None
           | Some statusKey \<Rightarrow>
               (case property_key E (field defect (js ''priority'')) of
                  None \<Rightarrow> None
                | Some priorityKey \<Rightarrow>
                    (let counted =
                           \<lparr>totalDefects = totalDefects a + 1,
                            overdue = overdue a,
                            statusCount = bump statusKey (statusCount a),
                            priorityCount = bump priorityKey (priorityCount a)\<rparr>
                     in case field defect (js ''dueDate'') of
                          None \<Rightarrow> Some (n, counted)
                        | Some dueDate \<Rightarrow>
                            if \<not> truthy (Some dueDate) then Some (n, counted)
                            else
                              (case Date_of E dueDate of
                                 None \<Rightarrow> None
                               | Some due \<Rightarrow>
                                   if (case due of None \<Rightarrow> False | Some t \<Rightarrow> t < clock n)
                                      \<and> field defect (js ''status'') \<noteq> Some (JStr closed)
                                   then Some (n + 1, counted\<lparr>overdue := overdue a + 1\<rparr>)
                                   else Some (n + 1, counted))))))"

fun analytics_loop ::
  "engine \<Rightarrow> (nat \<Rightarrow> int) \<Rightarrow> obj list \<Rightarrow> nat \<times> analytics \<Rightarrow> (nat \<times> analytics) option" where
  "analytics_loop E clock [] st = Some st"
| "analytics_loop E clock (defect # defects) st =
     (case analytics_step E clock defect st of
        None \<Rightarrow> None
      | Some st' \<Rightarrow> analytics_loop E clock defects st')"

definition analytics_scan :: "engine \<Rightarrow> (nat \<Rightarrow> int) \<Rightarrow> obj list \<Rightarrow> analytics option" where
  "analytics_scan E clock defects =
     map_option snd
       (analytics_loop E clock defects
          (0, \<lparr>totalDefects = 0, overdue = 0, statusCount = [], priorityCount = []\<rparr>))"

fun cell_json :: "cell \<Rightarrow> json" where
  "cell_json (CNum n) = JNum (of_nat n)"
| "cell_json (CStr s) = JStr s"

definition counts_json :: "counts \<Rightarrow> json" where
  "counts_json c = JObj (map (\<lambda>(k, v). (k, cell_json v)) c)"

text \<open>\<^verbatim>\<open>GET /analytics\<close>; an exception in the scan ends in the \<^verbatim>\<open>catch\<close>.\<close>

definition get_analytics ::
  "engine \<Rightarrow> authenticator \<Rightarrow> (nat \<Rightarrow> int) \<Rightarrow> request \<Rightarrow> kv \<Rightarrow> response" where
  "get_analytics E verifyAuth clock req s =
     (case authenticate verifyAuth req of
        Inl r \<Rightarrow> r
      | Inr user \<Rightarrow>
          (case analytics_scan E clock (kv_getByPrefix (js ''defect:'') s) of
             None \<Rightarrow> error_response 500 ''Internal server error while fetching analytics''
           | Some a \<Rightarrow>
               \<lparr>code = 200,
                payload = JObj [(js ''totalDefects'', JNum (of_nat (totalDefects a))),
                                (js ''overdue'', JNum (of_nat (overdue a))),
                                (js ''statusCount'', counts_json (statusCount a)),
                                (js ''priorityCount'', counts_json (priorityCount a))]\<rparr>))"

text \<open>
  Modelled from the spec: the overdue condition for a request time \<open>now\<close>: the dueDate
  is set (present, and not \<^verbatim>\<open>null\<close>, \<^verbatim>\<open>false\<close>, 0 or the empty string), it is a date
  strictly earlier than \<open>now\<close>, and the status is not the Closed label of the data model.
\<close>

definition label_Closed :: jsstring where
  "label_Closed = [0x417, 0x430, 0x43A, 0x440, 0x44B, 0x442, 0x430]"

definition dueDate_is_set :: "obj \<Rightarrow> bool" where
  "dueDate_is_set d =
     (case field d (js ''dueDate'') of
        None \<Rightarrow> False
      | Some JNull \<Rightarrow> False
      | Some (JBool b) \<Rightarrow> b
      | Some (JNum n) \<Rightarrow> n \<noteq> 0
      | Some (JStr s) \<Rightarrow> s \<noteq> []
      | Some (JArr xs) \<Rightarrow> True
      | Some (JObj fs) \<Rightarrow> True)"

definition dueDate_earlier :: "engine \<Rightarrow> int \<Rightarrow> obj \<Rightarrow> bool" where
  "dueDate_earlier E now d =
     (case field d (js ''dueDate'') of
        None \<Rightarrow> False
      | Some v \<Rightarrow> (case date_time E v of None \<Rightarrow> False | Some t \<Rightarrow> t < now))"

definition overdue_defect :: "engine \<Rightarrow> int \<Rightarrow> obj \<Rightarrow> bool" where
  "overdue_defect E now d =
     (dueDate_is_set d \<and> dueDate_earlier E now d
      \<and> field d (js ''status'') \<noteq> Some (JStr label_Closed))"

text \<open>
  The stored values on which the scan throws: an object with an own property
  \<^verbatim>\<open>toString\<close>, or an array with such an object among its elements, at any depth of
  arrays, as the status, the priority or a dueDate that is set.
\<close>

fun inconvertible :: "json \<Rightarrow> bool" where
  "inconvertible (JObj fs) = (js ''toString'' \<in> fst ` set fs)"
| "inconvertible (JArr xs) = (\<exists>x \<in> set xs. inconvertible x)"
| "inconvertible v = False"

definition breaks_scan :: "obj \<Rightarrow> bool" where
  "breaks_scan d =
     ((case field d (js ''status'') of None \<Rightarrow> False | Some v \<Rightarrow> inconvertible v)
      \<or> (case field d (js ''priority'') of None \<Rightarrow> False | Some v \<Rightarrow> inconvertible v)
      \<or> (dueDate_is_set d
          \<and> (case field d (js ''dueDate'') of None \<Rightarrow> False | Some v \<Rightarrow> inconvertible v)))"

text \<open>The sum of the values of a count object, when every value is a number.\<close>

fun counts_total :: "counts \<Rightarrow> nat option" where
  "counts_total [] = Some 0"
| "counts_total ((k, CNum n) # c) = map_option (\<lambda>t. n + t) (counts_total c)"
| "counts_total ((k, CStr s) # c) = None"

section \<open>What a request draws from its host\<close>

text \<open>
  \<^verbatim>\<open>crypto.randomUUID()\<close> and \<^verbatim>\<open>new Date().toISOString()\<close> are read from the host;
  \<open>randomUUID h n\<close> and \<open>nowISO h n\<close> are the results of the \<open>n\<close>-th call (from 0) that
  the handler makes while it serves one request.
\<close>

record host =
  randomUUID :: "nat \<Rightarrow> jsstring"
  nowISO :: "nat \<Rightarrow> jsstring"

section \<open>Signup\<close>

text \<open>
  The Authenticator's admin interface, \<^verbatim>\<open>supabase.auth.admin.createUser\<close>, is given
  the request below and answers with an error message or the new identity; \<open>None\<close> is a
  call that throws.
\<close>

record create_user_request =
  cu_email :: "json option"
  cu_password :: "json option"
  cu_user_metadata :: obj
  cu_email_confirm :: bool

type_synonym admin_createUser = "create_user_request \<Rightarrow> (jsstring + auth_user) option"

definition signup_identity :: "json \<Rightarrow> create_user_request" where
  "signup_identity b =
     \<lparr>cu_email = get_prop b (js ''email''),
      cu_password = get_prop b (js ''password''),
      cu_user_metadata =
        obj_lit [(js ''name'', get_prop b (js ''name'')),
                 (js ''role'', Some (JStr (js ''observer'')))],
      cu_email_confirm = True\<rparr>"

definition signup_profile :: "host \<Rightarrow> json \<Rightarrow> auth_user \<Rightarrow> obj" where
  "signup_profile h b user =
     obj_lit [(js ''id'', Some (JStr (uid user))),
              (js ''email'', get_prop b (js ''email'')),
              (js ''name'', get_prop b (js ''name'')),
              (js ''role'', Some (JStr (js ''observer''))),
              (js ''createdAt'', Some (JStr (nowISO h 0)))]"

definition signup :: "admin_createUser \<Rightarrow> host \<Rightarrow> request \<Rightarrow> kv \<Rightarrow> response \<times> kv" where
  "signup createUser h req s =
     (case body req of
        None \<Rightarrow> (error_response 500 ''Internal server error during signup'', s)
      | Some b \<Rightarrow>
          if b = JNull
          then (error_response 500 ''Internal server error during signup'', s)
          else
            (case createUser (signup_identity b) of
               None \<Rightarrow> (error_response 500 ''Internal server error during signup'', s)
             | Some (Inl message) \<Rightarrow>
                 (\<lparr>code = 400, payload = JObj [(js ''error'', JStr message)]\<rparr>, s)
             | Some (Inr user) \<Rightarrow>
                 (\<lparr>code = 200, payload = JObj [(js ''user'', as_json user)]\<rparr>,
                  kv_set (js ''user:'' @ uid user) (signup_profile h b user) s)))"

section \<open>Defects\<close>

definition status_new :: jsstring where
  "status_new = [0x41D, 0x43E, 0x432, 0x430, 0x44F]"

definition details_created :: jsstring where
  "details_created =
     [0x414, 0x435, 0x444, 0x435, 0x43A, 0x442, 0x20, 0x441, 0x43E, 0x437, 0x434, 0x430, 0x43D]"

definition details_updated :: jsstring where
  "details_updated =
     [0x414, 0x435, 0x444, 0x435, 0x43A, 0x442, 0x20, 0x43E, 0x431, 0x43D, 0x43E, 0x432,
      0x43B, 0x435, 0x43D, 0x3A, 0x20]"

definition defect_key :: "jsstring \<Rightarrow> jsstring" where
  "defect_key defectId = js ''defect:'' @ defectId"

definition history_key :: "jsstring \<Rightarrow> jsstring \<Rightarrow> jsstring" where
  "history_key defectId entryId = js ''history:'' @ defectId @ js '':'' @ entryId"

definition history_entry ::
  "jsstring \<Rightarrow> jsstring \<Rightarrow> jsstring \<Rightarrow> jsstring \<Rightarrow> jsstring \<Rightarrow> jsstring \<Rightarrow> obj" where
  "history_entry entryId defectId action userId timestamp details =
     [(js ''id'', JStr entryId),
      (js ''defectId'', JStr defectId),
      (js ''action'', JStr action),
      (js ''userId'', JStr userId),
      (js ''timestamp'', JStr timestamp),
      (js ''details'', JStr details)]"

text \<open>\<^verbatim>\<open>POST /defects\<close>\<close>

definition new_defect :: "host \<Rightarrow> auth_user \<Rightarrow> json \<Rightarrow> obj" where
  "new_defect h user b =
     obj_lit [(js ''id'', Some (JStr (randomUUID h 0))),
              (js ''title'', get_prop b (js ''title'')),
              (js ''description'', get_prop b (js ''description'')),
              (js ''priority'', get_prop b (js ''priority'')),
              (js ''assignee'', get_prop b (js ''assignee'')),
              (js ''projectId'', get_prop b (js ''projectId'')),
              (js ''dueDate'', get_prop b (js ''dueDate'')),
              (js ''status'', Some (JStr status_new)),
              (js ''createdBy'', Some (JStr (uid user))),
              (js ''createdAt'', Some (JStr (nowISO h 0))),
              (js ''updatedAt'', Some (JStr (nowISO h 1))),
              (js ''comments'', Some (JArr []))]"

definition create_defect :: "authenticator \<Rightarrow> host \<Rightarrow> request \<Rightarrow> kv \<Rightarrow> response \<times> kv" where
  "create_defect verifyAuth h req s =
     (case authenticate verifyAuth req of
        Inl r \<Rightarrow> (r, s)
      | Inr user \<Rightarrow>
          (case body req of
             None \<Rightarrow> (error_response 500 ''Internal server error while creating defect'', s)
           | Some b \<Rightarrow>
               if b = JNull
               then (error_response 500 ''Internal server error while creating defect'', s)
               else
                 (let defectId = randomUUID h 0;
                      defect = new_defect h user b;
                      s1 = kv_set (defect_key defectId) defect s;
                      historyEntry =
                        history_entry (randomUUID h 1) defectId (js ''created'') (uid user)
                          (nowISO h 2) details_created;
                      s2 = kv_set (history_key defectId (randomUUID h 1)) historyEntry s1
                  in (\<lparr>code = 200, payload = JObj [(js ''defect'', JObj defect)]\<rparr>, s2))))"

text \<open>
  The decimal numeral of an array index, and the own enumerable properties of a parsed
  body, as \<^verbatim>\<open>{...updates}\<close> and \<^verbatim>\<open>Object.keys(updates)\<close> see them: the properties of
  an object, the indexed elements of an array, the indexed code units of a string, and
  none for a number, a boolean or \<^verbatim>\<open>null\<close>.
\<close>

fun decimal :: "nat \<Rightarrow> jsstring" where
  "decimal n =
     (if n < 10 then [of_nat (48 + n)]
      else decimal (n div 10) @ [of_nat (48 + n mod 10)])"

fun own_props :: "json \<Rightarrow> obj" where
  "own_props (JObj fs) = fs"
| "own_props (JArr xs) = zip (map decimal [0..<length xs]) xs"
| "own_props (JStr cs) = zip (map decimal [0..<length cs]) (map (\<lambda>c. JStr [c]) cs)"
| "own_props v = []"

text \<open>
  \<^verbatim>\<open>PUT /defects/:id\<close>. The merged document is stored before the history entry is
  built; \<^verbatim>\<open>Object.keys(null)\<close> throws, so a \<^verbatim>\<open>null\<close> body ends in the
  \<^verbatim>\<open>catch\<close> after the first write.
\<close>

definition merged_defect :: "host \<Rightarrow> obj \<Rightarrow> json \<Rightarrow> obj" where
  "merged_defect h existingDefect updates =
     upsert (js ''updatedAt'') (JStr (nowISO h 0)) (spread existingDefect (own_props updates))"

definition update_details :: "json \<Rightarrow> jsstring" where
  "update_details updates = details_updated @ join (js '', '') (map fst (own_props updates))"

definition update_defect :: "authenticator \<Rightarrow> host \<Rightarrow> request \<Rightarrow> kv \<Rightarrow> response \<times> kv" where
  "update_defect verifyAuth h req s =
     (case authenticate verifyAuth req of
        Inl r \<Rightarrow> (r, s)
      | Inr user \<Rightarrow>
          (let defectId = param_id req in
           case body req of
             None \<Rightarrow> (error_response 500 ''Internal server error while updating defect'', s)
           | Some updates \<Rightarrow>
               (case kv_get s (defect_key defectId) of
                  None \<Rightarrow> (error_response 404 ''Defect not found'', s)
                | Some existingDefect \<Rightarrow>
                    (let updatedDefect = merged_defect h existingDefect updates;
                         s1 = kv_set (defect_key defectId) updatedDefect s
                     in if updates = JNull
                        then (error_response 500 ''Internal server error while updating defect'',
                              s1)
                        else
                          (let historyEntry =
                                 history_entry (randomUUID h 0) defectId (js ''updated'')
                                   (uid user) (nowISO h 1) (update_details updates);
                               s2 = kv_set (history_key defectId (randomUUID h 0)) historyEntry s1
                           in (\<lparr>code = 200,
                                payload = JObj [(js ''defect'', JObj updatedDefect)]\<rparr>, s2))))))"

text \<open>
  \<^verbatim>\<open>POST /defects/:id/comments\<close>. \<^verbatim>\<open>defect.comments || []\<close> replaces a missing or falsy
  field by the empty array; \<^verbatim>\<open>push\<close> exists on an array only, so any other truthy
  value makes the call throw before anything is stored.
\<close>

definition new_comment :: "host \<Rightarrow> auth_user \<Rightarrow> json \<Rightarrow> obj" where
  "new_comment h user b =
     obj_lit [(js ''id'', Some (JStr (randomUUID h 0))),
              (js ''author'', Some (JStr (uid user))),
              (js ''comment'', get_prop b (js ''comment'')),
              (js ''timestamp'', Some (JStr (nowISO h 0)))]"

definition comments_or_empty :: "obj \<Rightarrow> json option" where
  "comments_or_empty defect =
     (if truthy (field defect (js ''comments'')) then field defect (js ''comments'')
      else Some (JArr []))"

definition add_comment :: "authenticator \<Rightarrow> host \<Rightarrow> request \<Rightarrow> kv \<Rightarrow> response \<times> kv" where
  "add_comment verifyAuth h req s =
     (case authenticate verifyAuth req of
        Inl r \<Rightarrow> (r, s)
      | Inr user \<Rightarrow>
          (let defectId = param_id req in
           case body req of
             None \<Rightarrow> (error_response 500 ''Internal server error while adding comment'', s)
           | Some b \<Rightarrow>
               if b = JNull
               then (error_response 500 ''Internal server error while adding comment'', s)
               else
                 (case kv_get s (defect_key defectId) of
                    None \<Rightarrow> (error_response 404 ''Defect not found'', s)
                  | Some defect \<Rightarrow>
                      (let newComment = new_comment h user b in
                       case comments_or_empty defect of
                         Some (JArr cs) \<Rightarrow>
                           (\<lparr>code = 200, payload = JObj [(js ''comment'', JObj newComment)]\<rparr>,
                            kv_set (defect_key defectId)
                              (upsert (js ''comments'') (JArr (cs @ [JObj newComment])) defect) s)
                       | _ \<Rightarrow>
                           (error_response 500 ''Internal server error while adding comment'',
                            s)))))"

section \<open>User roles\<close>

definition validRoles :: "jsstring list" where
  "validRoles = [js ''observer'', js ''engineer'', js ''manager'', js ''admin'']"

text \<open>\<^verbatim>\<open>validRoles.includes(role)\<close>: only a string can equal an element.\<close>

definition includes_role :: "json option \<Rightarrow> bool" where
  "includes_role role = (case role of Some (JStr r) \<Rightarrow> r \<in> set validRoles | _ \<Rightarrow> False)"

definition user_key :: "jsstring \<Rightarrow> jsstring" where
  "user_key userId = js ''user:'' @ userId"

text \<open>
  \<^verbatim>\<open>PUT /users/:id/role\<close>. The third component of the result is the metadata that
  the handler sends to the Authenticator with \<^verbatim>\<open>updateUserById\<close>, if it gets that far.
  \<open>assign\<close> is a property \<^verbatim>\<open>k: v\<close> written after a spread, as it is serialised.
\<close>

definition assign :: "jsstring \<Rightarrow> json option \<Rightarrow> obj \<Rightarrow> obj" where
  "assign k v d = (case v of None \<Rightarrow> filter (\<lambda>p. fst p \<noteq> k) d | Some x \<Rightarrow> upsert k x d)"

definition update_user_role ::
  "authenticator \<Rightarrow> host \<Rightarrow> request \<Rightarrow> kv \<Rightarrow> response \<times> kv \<times> (jsstring \<times> obj) option" where
  "update_user_role verifyAuth h req s =
     (case authenticate verifyAuth req of
        Inl r \<Rightarrow> (r, s, None)
      | Inr adminUser \<Rightarrow>
          (case kv_get s (user_key (uid adminUser)) of
             None \<Rightarrow> (error_response 403 ''Forbidden: Admin access required'', s, None)
           | Some adminProfile \<Rightarrow>
               if field adminProfile (js ''role'') \<noteq> Some (JStr (js ''admin''))
               then (error_response 403 ''Forbidden: Admin access required'', s, None)
               else
                 (let userId = param_id req in
                  case body req of
                    None \<Rightarrow>
                      (error_response 500 ''Internal server error while updating user role'',
                       s, None)
                  | Some b \<Rightarrow>
                      if b = JNull
                      then (error_response 500
                              ''Internal server error while updating user role'', s, None)
                      else
                        (let role = get_prop b (js ''role'') in
                         if \<not> includes_role role
                         then (error_response 400 ''Invalid role'', s, None)
                         else
                           (case kv_get s (user_key userId) of
                              None \<Rightarrow> (error_response 404 ''User not found'', s, None)
                            | Some userProfile \<Rightarrow>
                                (let updatedProfile =
                                       upsert (js ''updatedAt'') (JStr (nowISO h 0))
                                         (assign (js ''role'') role userProfile)
                                 in (\<lparr>code = 200,
                                      payload = JObj [(js ''user'', JObj updatedProfile)]\<rparr>,
                                     kv_set (user_key userId) updatedProfile s,
                                     Some (userId, assign (js ''role'') role userProfile))))))))"

section \<open>A scenario\<close>

text \<open>
  Concrete inputs on which the theorems below are exercised: one user whose token is
  \<^verbatim>\<open>t1\<close>, a host that hands out \<^verbatim>\<open>id0, id1, ...\<close> and \<^verbatim>\<open>T0, T1, ...\<close>, and a
  store holding one defect \<^verbatim>\<open>d1\<close> with one comment.
\<close>

definition scenario_user :: auth_user where
  "scenario_user = \<lparr>uid = js ''u1'', as_json = JObj [(js ''id'', JStr (js ''u1''))]\<rparr>"

definition scenario_verifyAuth :: authenticator where
  "scenario_verifyAuth tok = (if tok = js ''t1'' then Some scenario_user else None)"

definition scenario_host :: host where
  "scenario_host = \<lparr>randomUUID = (\<lambda>n. js ''id'' @ decimal n), nowISO = (\<lambda>n. js ''T'' @ decimal n)\<rparr>"

definition scenario_request :: "json \<Rightarrow> request" where
  "scenario_request b = \<lparr>authorization = Some (js ''Bearer t1''), body = Some b, param_id = js ''d1''\<rparr>"

definition scenario_defect :: obj where
  "scenario_defect =
     [(js ''id'', JStr (js ''d1'')),
      (js ''title'', JStr (js ''Crack'')),
      (js ''priority'', JStr (js ''Low'')),
      (js ''status'', JStr status_new),
      (js ''comments'', JArr [JObj [(js ''id'', JStr (js ''c1'')), (js ''comment'', JStr (js ''seen''))]])]"

definition scenario_store :: kv where
  "scenario_store = [(defect_key (js ''d1''), scenario_defect)]"

definition scenario_payload :: json where
  "scenario_payload = JObj [(js ''priority'', JStr (js ''Low''))]"

definition scenario_comment_body :: json where
  "scenario_comment_body = JObj [(js ''comment'', JStr (js ''fixed''))]"

definition scenario_admin_store :: kv where
  "scenario_admin_store =
     [(user_key (js ''u1''), [(js ''id'', JStr (js ''u1'')), (js ''role'', JStr (js ''admin''))])]"

definition scenario_role_body :: json where
  "scenario_role_body = JObj [(js ''role'', JStr (js ''root''))]"

definition scenario_createUser :: admin_createUser where
  "scenario_createUser r =
     Some (Inr \<lparr>uid = js ''u2'', as_json = JObj [(js ''id'', JStr (js ''u2''))]\<rparr>)"

definition scenario_signup :: "string \<Rightarrow> obj" where
  "scenario_signup role =
     [(js ''email'', JStr (js ''ann@example.org'')),
      (js ''password'', JStr (js ''secret'')),
      (js ''name'', JStr (js ''Ann'')),
      (js ''role'', JStr (js role))]"

section \<open>Reading the store\<close>

text \<open>A property of the document stored under a key, and the comment sequence of a defect.\<close>

definition stored_field :: "kv \<Rightarrow> jsstring \<Rightarrow> jsstring \<Rightarrow> json option" where
  "stored_field s key name = (case kv_get s key of None \<Rightarrow> None | Some d \<Rightarrow> field d name)"

definition stored_comments :: "kv \<Rightarrow> jsstring \<Rightarrow> json list" where
  "stored_comments s defectId =
     (case stored_field s (defect_key defectId) (js ''comments'') of
        Some (JArr cs) \<Rightarrow> cs
      | _ \<Rightarrow> [])"

text \<open>
  Modelled from the spec: the comment sequence of a stored defect, an ordered sequence of
  comments. A defect that holds no comments (the field is missing, or is \<^verbatim>\<open>null\<close>,
  \<^verbatim>\<open>false\<close>, 0 or the empty string) has the empty sequence; a field that holds
  anything else than a sequence is no comment sequence (\<open>None\<close>).
\<close>

definition prior_comments :: "obj \<Rightarrow> json list option" where
  "prior_comments d =
     (case field d (js ''comments'') of
        None \<Rightarrow> Some []
      | Some JNull \<Rightarrow> Some []
      | Some (JBool b) \<Rightarrow> if b then None else Some []
      | Some (JNum n) \<Rightarrow> if n = 0 then Some [] else None
      | Some (JStr s) \<Rightarrow> if s = [] then Some [] else None
      | Some (JArr cs) \<Rightarrow> Some cs
      | Some (JObj fs) \<Rightarrow> None)"

text \<open>An update payload that puts a text where the comment sequence was.\<close>

definition scenario_text_comments :: json where
  "scenario_text_comments = JObj [(js ''comments'', JStr (js ''soon''))]"

definition scenario_wipe :: json where
  "scenario_wipe = JObj [(js ''comments'', JArr [])]"



definition scenario_inherited_name :: json where
  "scenario_inherited_name = JObj [(js ''priority'', JStr (js ''constructor''))]"

section \<open>The client's creation time line\<close>

text \<open>
  \<^verbatim>\<open>getTimelineData\<close> of the analytics page
  (\<^verbatim>\<open>src/src/components/CreateDefectPage.tsx\<close>). The date arithmetic of
  \<^verbatim>\<open>Date.prototype.toISOString\<close> follows the definitions of ECMAScript: a time value is
  a number of milliseconds since the epoch, in UTC.
\<close>

definition msPerDay :: int where
  "msPerDay = 86400000"

definition Day :: "int \<Rightarrow> int" where
  "Day t = t div msPerDay"

definition TimeWithinDay :: "int \<Rightarrow> int" where
  "TimeWithinDay t = t mod msPerDay"

definition DaysInYear :: "int \<Rightarrow> int" where
  "DaysInYear y =
     (if y mod 4 \<noteq> 0 then 365 else if y mod 100 \<noteq> 0 then 366
      else if y mod 400 \<noteq> 0 then 365 else 366)"

definition DayFromYear :: "int \<Rightarrow> int" where
  "DayFromYear y =
     365 * (y - 1970) + (y - 1969) div 4 - (y - 1901) div 100 + (y - 1601) div 400"

text \<open>
  A year has 365 or 366 days, so \<open>DayFromYear\<close> grows with the year; this is what the
  search for the year of a day rests on.
\<close>

lemma int_div_succ:
  fixes x n :: int
  assumes "0 < n"
  shows "(x + 1) div n = x div n + (if (x + 1) mod n = 0 then 1 else 0)"
proof (cases "x mod n + 1 = n")
  case True
  have "n * (x div n) + x mod n = x"
    by simp
  then have "x + 1 = n * (x div n) + (x mod n + 1)"
    by linarith
  then have "x + 1 = n * (x div n + 1) + 0"
    unfolding True by (simp add: algebra_simps)
  then have "(x + 1) div n = x div n + 1" "(x + 1) mod n = 0"
    using assms int_div_pos_eq [of "x + 1" n "x div n + 1" 0]
      int_mod_pos_eq [of "x + 1" n "x div n + 1" 0] by simp_all
  then show ?thesis
    by simp
next
  case False
  have r: "0 \<le> x mod n + 1" "x mod n + 1 < n"
    using assms False pos_mod_bound [of n x] pos_mod_sign [of n x] by linarith+
  have "x + 1 = n * (x div n) + (x mod n + 1)"
    by simp
  then have "(x + 1) div n = x div n" "(x + 1) mod n = x mod n + 1"
    using r int_div_pos_eq [of "x + 1" n "x div n" "x mod n + 1"]
      int_mod_pos_eq [of "x + 1" n "x div n" "x mod n + 1"] by simp_all
  moreover have "x mod n + 1 \<noteq> 0"
    using pos_mod_sign [OF assms, of x] by linarith
  ultimately show ?thesis
    by simp
qed

lemma mod_diff_mult:
  fixes y k n :: int
  shows "(y - k * n) mod n = y mod n"
proof -
  have "(y - k * n) mod n = (y + (- k) * n) mod n"
    by simp
  also have "\<dots> = y mod n"
    by (rule mod_mult_self1)
  finally show ?thesis .
qed

lemma mod_shift:
  fixes y :: int
  shows "(y - 1968) mod 4 = y mod 4" "(y - 1900) mod 100 = y mod 100"
    "(y - 1600) mod 400 = y mod 400"
  using mod_diff_mult [of y 492 4] mod_diff_mult [of y 19 100] mod_diff_mult [of y 4 400]
  by simp_all

lemma mod_chain:
  fixes y :: int
  shows "y mod 400 = 0 \<Longrightarrow> y mod 100 = 0" "y mod 100 = 0 \<Longrightarrow> y mod 4 = 0"
proof -
  have a: "(100::int) dvd 400" and b: "(4::int) dvd 100"
    by simp_all
  show "y mod 400 = 0 \<Longrightarrow> y mod 100 = 0"
    using dvd_trans [OF a, of y] by (simp add: mod_eq_0_iff_dvd)
  show "y mod 100 = 0 \<Longrightarrow> y mod 4 = 0"
    using dvd_trans [OF b, of y] by (simp add: mod_eq_0_iff_dvd)
qed

lemma DayFromYear_next: "DayFromYear (y + 1) = DayFromYear y + DaysInYear y"
proof -
  define q4 q100 q400 where "q4 = (y - 1969) div 4" and "q100 = (y - 1901) div 100"
    and "q400 = (y - 1601) div 400"
  define l4 l100 l400 :: int where "l4 = (if y mod 4 = 0 then 1 else 0)"
    and "l100 = (if y mod 100 = 0 then 1 else 0)" and "l400 = (if y mod 400 = 0 then 1 else 0)"
  have a: "(y - 1968) div 4 = q4 + l4"
    using int_div_succ [of 4 "y - 1969"] mod_shift(1) [of y] by (simp add: q4_def l4_def)
  have b: "(y - 1900) div 100 = q100 + l100"
    using int_div_succ [of 100 "y - 1901"] mod_shift(2) [of y] by (simp add: q100_def l100_def)
  have c: "(y - 1600) div 400 = q400 + l400"
    using int_div_succ [of 400 "y - 1601"] mod_shift(3) [of y] by (simp add: q400_def l400_def)
  have s: "y + 1 - 1970 = y - 1969" "y + 1 - 1969 = y - 1968" "y + 1 - 1901 = y - 1900"
    "y + 1 - 1601 = y - 1600"
    by simp_all
  have n: "DayFromYear (y + 1) = 365 * (y - 1969) + (q4 + l4) - (q100 + l100) + (q400 + l400)"
    unfolding DayFromYear_def s a b c ..
  have o: "DayFromYear y = 365 * (y - 1970) + q4 - q100 + q400"
    unfolding DayFromYear_def q4_def q100_def q400_def ..
  have d: "DaysInYear y = 365 + l4 - l100 + l400"
    using mod_chain [of y] by (simp add: DaysInYear_def l4_def l100_def l400_def)
  show ?thesis
    unfolding n o d by (simp add: algebra_simps)
qed

lemma DayFromYear_less_next: "DayFromYear y < DayFromYear (y + 1)"
  unfolding DayFromYear_next by (simp add: DaysInYear_def)

text \<open>
  \<^verbatim>\<open>YearFromTime(t)\<close> is the largest year \<open>y\<close> with \<open>DayFromYear y \<le> Day t\<close>. It is
  found from an estimate by stepping down while the year starts after the day, then up
  while the next year starts on or before it.
\<close>

function year_down :: "int \<Rightarrow> int \<Rightarrow> int" where
  "year_down y d = (if d < DayFromYear y then year_down (y - 1) d else y)"
  by pat_completeness auto
termination
proof (relation "measure (\<lambda>(y, d). nat (DayFromYear y - d))")
  fix y d :: int
  assume "d < DayFromYear y"
  moreover have "DayFromYear (y - 1) < DayFromYear y"
    using DayFromYear_less_next [of "y - 1"] by simp
  ultimately show "((y - 1, d), (y, d)) \<in> measure (\<lambda>(y, d). nat (DayFromYear y - d))"
    by simp
qed simp

function year_up :: "int \<Rightarrow> int \<Rightarrow> int" where
  "year_up y d = (if DayFromYear (y + 1) \<le> d then year_up (y + 1) d else y)"
  by pat_completeness auto
termination
proof (relation "measure (\<lambda>(y, d). nat (d - DayFromYear y))")
  fix y d :: int
  assume "DayFromYear (y + 1) \<le> d"
  then show "((y + 1, d), (y, d)) \<in> measure (\<lambda>(y, d). nat (d - DayFromYear y))"
    using DayFromYear_less_next [of y] by simp
qed simp

definition YearFromDay :: "int \<Rightarrow> int" where
  "YearFromDay d = year_up (year_down (1970 + d div 365) d) d"

definition YearFromTime :: "int \<Rightarrow> int" where
  "YearFromTime t = YearFromDay (Day t)"

definition InLeapYear :: "int \<Rightarrow> int" where
  "InLeapYear t = (if DaysInYear (YearFromTime t) = 366 then 1 else 0)"

definition DayWithinYear :: "int \<Rightarrow> int" where
  "DayWithinYear t = Day t - DayFromYear (YearFromTime t)"

definition MonthFromTime :: "int \<Rightarrow> int" where
  "MonthFromTime t =
     (let d = DayWithinYear t; l = InLeapYear t
      in if d < 31 then 0
         else if d < 59 + l then 1
         else if d < 90 + l then 2
         else if d < 120 + l then 3
         else if d < 151 + l then 4
         else if d < 181 + l then 5
         else if d < 212 + l then 6
         else if d < 243 + l then 7
         else if d < 273 + l then 8
         else if d < 304 + l then 9
         else if d < 334 + l then 10
         else 11)"

definition DateFromTime :: "int \<Rightarrow> int" where
  "DateFromTime t =
     (let d = DayWithinYear t; l = InLeapYear t; m = MonthFromTime t
      in if m = 0 then d + 1
         else if m = 1 then d - 30
         else if m = 2 then d - 58 - l
         else if m = 3 then d - 89 - l
         else if m = 4 then d - 119 - l
         else if m = 5 then d - 150 - l
         else if m = 6 then d - 180 - l
         else if m = 7 then d - 211 - l
         else if m = 8 then d - 242 - l
         else if m = 9 then d - 272 - l
         else if m = 10 then d - 303 - l
         else d - 333 - l)"

definition HourFromTime :: "int \<Rightarrow> int" where
  "HourFromTime t = (t div 3600000) mod 24"

definition MinFromTime :: "int \<Rightarrow> int" where
  "MinFromTime t = (t div 60000) mod 60"

definition SecFromTime :: "int \<Rightarrow> int" where
  "SecFromTime t = (t div 1000) mod 60"

definition msFromTime :: "int \<Rightarrow> int" where
  "msFromTime t = t mod 1000"

text \<open>A number in decimal, padded with zeros to a width.\<close>

definition digit :: "nat \<Rightarrow> 16 word" where
  "digit n = of_nat (48 + n)"

fun pad :: "nat \<Rightarrow> nat \<Rightarrow> jsstring" where
  "pad 0 n = []"
| "pad (Suc w) n = pad w (n div 10) @ [digit (n mod 10)]"

text \<open>
  \<^verbatim>\<open>toISOString\<close>: \<^verbatim>\<open>YYYY-MM-DDTHH:mm:ss.sssZ\<close>, with a sign and six digits for a
  year outside 0 to 9999.
\<close>

definition year_string :: "int \<Rightarrow> jsstring" where
  "year_string y =
     (if 0 \<le> y \<and> y \<le> 9999 then pad 4 (nat y)
      else (if y < 0 then js ''-'' else js ''+'') @ pad 6 (nat \<bar>y\<bar>))"

definition date_string :: "int \<Rightarrow> jsstring" where
  "date_string t =
     year_string (YearFromTime t) @ js ''-'' @ pad 2 (nat (MonthFromTime t + 1))
       @ js ''-'' @ pad 2 (nat (DateFromTime t))"

definition time_string :: "int \<Rightarrow> jsstring" where
  "time_string t =
     pad 2 (nat (HourFromTime t)) @ js '':'' @ pad 2 (nat (MinFromTime t)) @ js '':''
       @ pad 2 (nat (SecFromTime t)) @ js ''.'' @ pad 3 (nat (msFromTime t))"

definition toISOString :: "int \<Rightarrow> jsstring" where
  "toISOString t = date_string t @ js ''T'' @ time_string t @ js ''Z''"

text \<open>
  \<^verbatim>\<open>new Date(defect.createdAt)\<close>; a missing field gives an invalid date, and
  \<^verbatim>\<open>toISOString\<close> of an invalid date throws (\<open>None\<close>). \<^verbatim>\<open>parts[0]\<close> of an empty
  array would be \<^verbatim>\<open>undefined\<close>.
\<close>

definition new_Date :: "engine \<Rightarrow> json option \<Rightarrow> int option" where
  "new_Date E v = (case v of None \<Rightarrow> None | Some x \<Rightarrow> date_time E x)"

definition first_part :: "jsstring list \<Rightarrow> jsstring" where
  "first_part parts = (case parts of [] \<Rightarrow> js ''undefined'' | x # _ \<Rightarrow> x)"

definition timeline_date :: "engine \<Rightarrow> obj \<Rightarrow> jsstring option" where
  "timeline_date E defect =
     (case new_Date E (field defect (js ''createdAt'')) of
        None \<Rightarrow> None
      | Some t \<Rightarrow> Some (first_part (split 0x54 (toISOString t))))"

text \<open>
  The \<^verbatim>\<open>forEach\<close> that fills \<^verbatim>\<open>timeline\<close>, an object like the count objects of the
  server, and the chain \<^verbatim>\<open>Object.entries(timeline).sort(...).slice(-30).map(...)\<close>.
  The comparison \<^verbatim>\<open>a.localeCompare(b)\<close> is applied to date strings only; on strings of
  ASCII digits with hyphens at the same places every collation agrees with the order of
  the code units, which is the order used here. The rendering
  \<^verbatim>\<open>new Date(date).toLocaleDateString('ru')\<close> is left to the browser.
\<close>

fun timeline_loop :: "engine \<Rightarrow> obj list \<Rightarrow> counts \<Rightarrow> counts option" where
  "timeline_loop E [] timeline = Some timeline"
| "timeline_loop E (defect # defects) timeline =
     (case timeline_date E defect of
        None \<Rightarrow> None
      | Some date \<Rightarrow> timeline_loop E defects (bump date timeline))"

definition slice_last :: "nat \<Rightarrow> 'a list \<Rightarrow> 'a list" where
  "slice_last n xs = drop (length xs - n) xs"

definition getTimelineData ::
  "engine \<Rightarrow> (jsstring \<Rightarrow> jsstring) \<Rightarrow> obj list \<Rightarrow> (jsstring \<times> cell) list option" where
  "getTimelineData E toLocaleDateString defects =
     (case timeline_loop E defects [] of
        None \<Rightarrow> None
      | Some timeline \<Rightarrow>
          Some (map (\<lambda>(date, count). (toLocaleDateString date, count))
                  (slice_last 30 (sort_key fst timeline))))"

text \<open>
  What the time line is compared with: the UTC day of a defect's creation time, the date
  string of a day, and the day on which a time falls in a zone \<open>offset\<close> milliseconds
  east of UTC (the client-local day of the spec). \<open>counted c n\<close> says that the object
  \<open>c\<close> has distinct names and holds the number \<open>n k\<close> under each name \<open>k\<close> (none where
  \<open>n k = 0\<close>).
\<close>

definition counted :: "counts \<Rightarrow> (jsstring \<Rightarrow> nat) \<Rightarrow> bool" where
  "counted c n \<longleftrightarrow>
     distinct (map fst c)
     \<and> (\<forall>k. map_of c k = (if n k = 0 then None else Some (CNum (n k))))"

definition utc_day :: "engine \<Rightarrow> obj \<Rightarrow> int" where
  "utc_day E defect =
     (case new_Date E (field defect (js ''createdAt'')) of None \<Rightarrow> 0 | Some t \<Rightarrow> Day t)"

definition day_string :: "int \<Rightarrow> jsstring" where
  "day_string d = date_string (d * msPerDay)"

definition local_day :: "int \<Rightarrow> int \<Rightarrow> int" where
  "local_day offset t = (t + offset) div msPerDay"

text \<open>
  Two defects for the time line, created at 22:00 UTC on 1 January 1970 and at 10:00 UTC
  on the next day, in a browser whose \<^verbatim>\<open>Date\<close> reads these two strings.
\<close>

definition scenario_engine :: engine where
  "scenario_engine =
     \<lparr>number_to_string = (\<lambda>n. []),
      date_time = (\<lambda>v. if v = JStr (js ''1970-01-01T22:00:00.000Z'') then Some 79200000
                         else if v = JStr (js ''1970-01-02T10:00:00.000Z'') then Some 122400000
                         else None)\<rparr>"

definition scenario_evening :: obj where
  "scenario_evening = [(js ''createdAt'', JStr (js ''1970-01-01T22:00:00.000Z''))]"

definition scenario_morning :: obj where
  "scenario_morning = [(js ''createdAt'', JStr (js ''1970-01-02T10:00:00.000Z''))]"

definition scenario_label :: "jsstring \<Rightarrow> jsstring" where
  "scenario_label date = date"

text \<open>
  Defects for the overdue count, read by an engine that knows the two dates above: one
  past its date, one past its date and closed, one without a date; and a request time
  after both dates.
\<close>

definition scenario_late :: obj where
  "scenario_late =
     [(js ''status'', JStr status_new), (js ''dueDate'', JStr (js ''1970-01-01T22:00:00.000Z''))]"

definition scenario_done :: obj where
  "scenario_done =
     [(js ''status'', JStr [0x417, 0x430, 0x43A, 0x440, 0x44B, 0x442, 0x430]),
      (js ''dueDate'', JStr (js ''1970-01-01T22:00:00.000Z''))]"

definition scenario_undated :: obj where
  "scenario_undated = [(js ''status'', JStr status_new)]"

definition scenario_due_store :: kv where
  "scenario_due_store =
     [(defect_key (js ''d1''), scenario_late),
      (defect_key (js ''d2''), scenario_done),
      (defect_key (js ''d3''), scenario_undated)]"

definition scenario_now :: int where
  "scenario_now = 200000000"

text \<open>
  A payload for \<^verbatim>\<open>POST /defects\<close> whose priority is an object with a property
  \<^verbatim>\<open>toString\<close>.
\<close>

definition scenario_unreadable :: json where
  "scenario_unreadable =
     JObj [(js ''priority'', JObj [(js ''toString'', JNum 1)]),
           (js ''dueDate'', JStr (js ''1970-01-01T22:00:00.000Z''))]"

section \<open>Strings, objects and the store: basic facts\<close>

lemma unat_of_char: "unat (of_char c :: 16 word) = of_char c"
proof -
  have w: "(of_char c :: 16 word) = of_nat (of_char c)"
    by (simp only: of_nat_of_char)
  have "(of_char c :: nat) \<in> {0..<256}"
    using range_nat_of_char by blast
  then have "(of_char c :: nat) < 65536"
    by (simp only: atLeastLessThan_iff) linarith
  then have "(of_char c :: nat) < 2 ^ LENGTH(16)"
    by simp
  then show ?thesis
    by (simp only: w unat_of_nat mod_less)
qed

lemma of_char_word_eq_iff: "(of_char c :: 16 word) = of_char d \<longleftrightarrow> c = d"
proof
  assume "(of_char c :: 16 word) = of_char d"
  then have "unat (of_char c :: 16 word) = unat (of_char d :: 16 word)"
    by (rule arg_cong)
  then have "(of_char c :: nat) = of_char d"
    by (simp only: unat_of_char)
  then show "c = d"
    by (simp only: of_char_eq_iff)
next
  assume "c = d"
  then show "(of_char c :: 16 word) = of_char d"
    by (rule arg_cong)
qed

lemma js_Nil: "js [] = []"
  by (simp add: js_def)

lemma js_not_Nil: "js (c # s) \<noteq> []"
  by (simp add: js_def)

lemma js_Cons: "js (c # cs) = of_char c # js cs"
  by (simp only: js_def list.map)

lemma js_eq_iff: "js a = js b \<longleftrightarrow> a = b"
proof (induction a arbitrary: b)
  case Nil
  then show ?case
    by (cases b) (simp_all add: js_Nil js_Cons del: of_char_Char)
next
  case (Cons c cs)
  then show ?case
    by (cases b) (simp_all add: js_Nil js_Cons of_char_word_eq_iff del: of_char_Char)
qed

lemma js_append: "js a @ js b = js (a @ b)"
  by (simp only: js_def map_append)

lemma js_prefix_iff: "prefix (js a) (js b) \<longleftrightarrow> prefix a b"
proof (induction a arbitrary: b)
  case Nil
  then show ?case
    by (simp only: js_Nil Nil_prefix)
next
  case (Cons c cs)
  then show ?case
    by (cases b) (simp_all add: js_Nil js_Cons of_char_word_eq_iff del: of_char_Char)
qed

lemma map_of_upsert: "map_of (upsert k v s) = (map_of s)(k \<mapsto> v)"
  by (induction s) (auto simp: fun_eq_iff)

lemma upsert_fresh: "map_of s k = None \<Longrightarrow> upsert k v s = s @ [(k, v)]"
  by (induction s) (auto split: if_splits)

lemma filter_upsert_other:
  "\<not> P k \<Longrightarrow> filter (\<lambda>row. P (fst row)) (upsert k v s) = filter (\<lambda>row. P (fst row)) s"
  by (induction s) auto

lemma field_upsert: "field (upsert k v d) k' = (if k' = k then Some v else field d k')"
  by (simp add: field_def map_of_upsert)

lemma kv_get_set: "kv_get (kv_set k d s) k' = (if k' = k then Some d else kv_get s k')"
  by (simp add: kv_get_def kv_set_def map_of_upsert)

lemma kv_getByPrefix_set_other:
  "\<not> prefix p k \<Longrightarrow> kv_getByPrefix p (kv_set k d s) = kv_getByPrefix p s"
  by (simp add: kv_getByPrefix_def kv_set_def filter_upsert_other)

lemma kv_getByPrefix_set_fresh:
  "kv_get s k = None \<Longrightarrow> prefix p k \<Longrightarrow>
   kv_getByPrefix p (kv_set k d s) = kv_getByPrefix p s @ [d]"
  by (simp add: kv_getByPrefix_def kv_set_def kv_get_def upsert_fresh)

lemma history_prefix: "prefix (js ''history:'') (history_key a b)"
  by (simp add: history_key_def)

lemma defect_not_history: "\<not> prefix (js ''history:'') (defect_key a)"
  by (simp add: defect_key_def js_def)

lemma defect_key_neq_history: "defect_key a \<noteq> history_key b c"
  by (simp add: defect_key_def history_key_def js_def)

lemma defect_key_eq_iff: "defect_key a = defect_key b \<longleftrightarrow> a = b"
  by (simp add: defect_key_def)

text \<open>Reading a property of an object literal whose names are distinct.\<close>

lemma field_obj_lit:
  "distinct (map fst ps) \<Longrightarrow>
   field (obj_lit ps) k = (case map_of ps k of None \<Rightarrow> None | Some v \<Rightarrow> v)"
proof (induction ps)
  case Nil
  then show ?case
    by (simp add: obj_lit_def field_def List.map_filter_simps)
next
  case (Cons p ps)
  obtain k' v' where p: "p = (k', v')"
    by (cases p)
  have not_in: "k' \<notin> fst ` set ps"
    using Cons.prems p by simp
  have none: "map_of (obj_lit ps) k' = None"
    using not_in by (force simp: obj_lit_def map_of_eq_None_iff List.map_filter_def)
  show ?case
  proof (cases v')
    case None
    have "obj_lit (p # ps) = obj_lit ps"
      using p None by (simp add: obj_lit_def List.map_filter_simps)
    moreover have "k = k' \<Longrightarrow> map_of ps k = None"
      using not_in by (simp add: map_of_eq_None_iff)
    ultimately show ?thesis
      using Cons p None none by (auto simp: field_def)
  next
    case (Some x)
    have "obj_lit (p # ps) = (k', x) # obj_lit ps"
      using p Some by (simp add: obj_lit_def List.map_filter_simps)
    then show ?thesis
      using Cons p Some by (auto simp: field_def)
  qed
qed

text \<open>Reading a property of a spread: the later object wins.\<close>

lemma field_spread:
  "distinct (map fst b) \<Longrightarrow>
   field (spread a b) k = (case field b k of None \<Rightarrow> field a k | Some v \<Rightarrow> Some v)"
proof (induction b arbitrary: a)
  case Nil
  then show ?case
    by (simp add: spread_def field_def)
next
  case (Cons p b)
  obtain k' v' where p: "p = (k', v')"
    by (cases p)
  have step: "spread a ((k', v') # b) = spread (upsert k' v' a) b"
    by (simp add: spread_def)
  have "k' \<notin> fst ` set b"
    using Cons.prems p by simp
  then have none: "field b k' = None"
    by (simp add: field_def map_of_eq_None_iff)
  have ih: "field (spread (upsert k' v' a) b) k =
          (case field b k of None \<Rightarrow> field (upsert k' v' a) k | Some v \<Rightarrow> Some v)"
    using Cons by simp
  have up: "field (upsert k' v' a) k = (if k = k' then Some v' else field a k)"
    by (simp add: field_upsert)
  show ?case
    unfolding p step ih up using none
    by (cases "k = k'") (simp_all add: field_def split: option.splits)
qed

section \<open>Defect handlers\<close>

lemma scenario_authenticate:
  "authenticate scenario_verifyAuth (scenario_request b) = Inr scenario_user"
  by (simp add: authenticate_def accessToken_def scenario_request_def scenario_verifyAuth_def js_def)

lemma new_defect_names:
  "distinct [js ''id'', js ''title'', js ''description'', js ''priority'', js ''assignee'',
             js ''projectId'', js ''dueDate'', js ''status'', js ''createdBy'', js ''createdAt'',
             js ''updatedAt'', js ''comments'']"
  by (simp add: js_eq_iff)

lemma field_new_defect:
  "field (new_defect h user b) (js ''status'') = Some (JStr status_new)"
  "field (new_defect h user b) (js ''comments'') = Some (JArr [])"
  using new_defect_names
  by (simp_all add: new_defect_def field_obj_lit js_eq_iff)

lemma create_defect_ok:
  assumes "authenticate verifyAuth req = Inr user" and "body req = Some b" and "b \<noteq> JNull"
  shows "create_defect verifyAuth h req s =
           (\<lparr>code = 200, payload = JObj [(js ''defect'', JObj (new_defect h user b))]\<rparr>,
            kv_set (history_key (randomUUID h 0) (randomUUID h 1))
              (history_entry (randomUUID h 1) (randomUUID h 0) (js ''created'') (uid user)
                 (nowISO h 2) details_created)
              (kv_set (defect_key (randomUUID h 0)) (new_defect h user b) s))"
  using assms by (simp add: create_defect_def Let_def)

lemma update_defect_ok:
  assumes "authenticate verifyAuth req = Inr user" and "body req = Some b" and "b \<noteq> JNull"
    and "kv_get s (defect_key (param_id req)) = Some d"
  shows "update_defect verifyAuth h req s =
           (\<lparr>code = 200, payload = JObj [(js ''defect'', JObj (merged_defect h d b))]\<rparr>,
            kv_set (history_key (param_id req) (randomUUID h 0))
              (history_entry (randomUUID h 0) (param_id req) (js ''updated'') (uid user)
                 (nowISO h 1) (update_details b))
              (kv_set (defect_key (param_id req)) (merged_defect h d b) s))"
  using assms by (simp add: update_defect_def Let_def)

lemma field_history_entry:
  "field (history_entry i d a u t x) (js ''action'') = Some (JStr a)"
  "field (history_entry i d a u t x) (js ''details'') = Some (JStr x)"
  by (simp_all add: history_entry_def field_def js_eq_iff)

text \<open>
  Apart from the \<^verbatim>\<open>null\<close> body: with a valid token and a body that parses to any other
  value, creating a defect answers 200, stores the defect with status New and an empty
  comment sequence, and adds exactly one history entry, whose action is \<^verbatim>\<open>created\<close>;
  updating an existing defect answers 200 and adds exactly one history entry, whose
  action is \<^verbatim>\<open>updated\<close>, whatever the payload holds. The identifier drawn for the
  entry is fresh, as the host's random identifiers are.
\<close>

lemma history_written_once:
  "(authenticate verifyAuth req = Inr user \<and> body req = Some b \<and> b \<noteq> JNull
      \<and> kv_get s (history_key (randomUUID h 0) (randomUUID h 1)) = None
    \<longrightarrow> (case create_defect verifyAuth h req s of
           (r, s') \<Rightarrow>
             code r = 200
             \<and> kv_get s' (defect_key (randomUUID h 0)) = Some (new_defect h user b)
             \<and> field (new_defect h user b) (js ''status'') = Some (JStr status_new)
             \<and> field (new_defect h user b) (js ''comments'') = Some (JArr [])
             \<and> (\<exists>entry. kv_getByPrefix (js ''history:'') s'
                           = kv_getByPrefix (js ''history:'') s @ [entry]
                        \<and> field entry (js ''action'') = Some (JStr (js ''created'')))))
   \<and> (authenticate verifyAuth req = Inr user \<and> body req = Some b \<and> b \<noteq> JNull
      \<and> kv_get s (defect_key (param_id req)) = Some d
      \<and> kv_get s (history_key (param_id req) (randomUUID h 0)) = None
    \<longrightarrow> (case update_defect verifyAuth h req s of
           (r, s') \<Rightarrow>
             code r = 200
             \<and> (\<exists>entry. kv_getByPrefix (js ''history:'') s'
                           = kv_getByPrefix (js ''history:'') s @ [entry]
                        \<and> field entry (js ''action'') = Some (JStr (js ''updated'')))))"
proof (intro conjI impI)
  assume a: "authenticate verifyAuth req = Inr user \<and> body req = Some b \<and> b \<noteq> JNull
      \<and> kv_get s (history_key (randomUUID h 0) (randomUUID h 1)) = None"
  then have fresh: "kv_get (kv_set (defect_key (randomUUID h 0)) (new_defect h user b) s)
                      (history_key (randomUUID h 0) (randomUUID h 1)) = None"
    using defect_key_neq_history [of "randomUUID h 0" "randomUUID h 0" "randomUUID h 1"]
    by (simp add: kv_get_set)
  show "case create_defect verifyAuth h req s of
           (r, s') \<Rightarrow>
             code r = 200
             \<and> kv_get s' (defect_key (randomUUID h 0)) = Some (new_defect h user b)
             \<and> field (new_defect h user b) (js ''status'') = Some (JStr status_new)
             \<and> field (new_defect h user b) (js ''comments'') = Some (JArr [])
             \<and> (\<exists>entry. kv_getByPrefix (js ''history:'') s'
                           = kv_getByPrefix (js ''history:'') s @ [entry]
                        \<and> field entry (js ''action'') = Some (JStr (js ''created'')))"
    using a fresh
    by (simp add: create_defect_ok kv_get_set defect_key_neq_history field_new_defect
          kv_getByPrefix_set_fresh kv_getByPrefix_set_other history_prefix defect_not_history
          field_history_entry)
next
  assume a: "authenticate verifyAuth req = Inr user \<and> body req = Some b \<and> b \<noteq> JNull
      \<and> kv_get s (defect_key (param_id req)) = Some d
      \<and> kv_get s (history_key (param_id req) (randomUUID h 0)) = None"
  then have fresh: "kv_get (kv_set (defect_key (param_id req)) (merged_defect h d b) s)
                      (history_key (param_id req) (randomUUID h 0)) = None"
    using defect_key_neq_history [of "param_id req" "param_id req" "randomUUID h 0"]
    by (simp add: kv_get_set)
  show "case update_defect verifyAuth h req s of
           (r, s') \<Rightarrow>
             code r = 200
             \<and> (\<exists>entry. kv_getByPrefix (js ''history:'') s'
                           = kv_getByPrefix (js ''history:'') s @ [entry]
                        \<and> field entry (js ''action'') = Some (JStr (js ''updated'')))"
    using a fresh
    by (simp add: update_defect_ok kv_getByPrefix_set_fresh kv_getByPrefix_set_other
          history_prefix defect_not_history field_history_entry)
qed

lemma scenario_store_get:
  "kv_get scenario_store (defect_key (js ''d1'')) = Some scenario_defect"
  by (simp add: scenario_store_def kv_get_def)

lemma scenario_store_no_history:
  "kv_getByPrefix (js ''history:'') scenario_store = []"
  by (simp add: scenario_store_def kv_getByPrefix_def defect_not_history)

lemma scenario_store_fresh:
  "kv_get scenario_store (history_key a b) = None"
  using defect_key_neq_history [of "js ''d1''" a b]
  by (auto simp add: scenario_store_def kv_get_def)

lemma scenario_request_simps:
  "body (scenario_request b) = Some b"
  "param_id (scenario_request b) = js ''d1''"
  by (simp_all add: scenario_request_def)

lemma history_written_once_at_scenario:
  "authenticate scenario_verifyAuth (scenario_request scenario_payload) = Inr scenario_user
   \<and> body (scenario_request scenario_payload) = Some scenario_payload
   \<and> scenario_payload \<noteq> JNull
   \<and> kv_get scenario_store
        (history_key (randomUUID scenario_host 0) (randomUUID scenario_host 1)) = None
   \<and> kv_get scenario_store (defect_key (param_id (scenario_request scenario_payload)))
        = Some scenario_defect
   \<and> kv_get scenario_store
        (history_key (param_id (scenario_request scenario_payload))
           (randomUUID scenario_host 0)) = None
   \<and> length (kv_getByPrefix (js ''history:'')
        (snd (create_defect scenario_verifyAuth scenario_host
               (scenario_request scenario_payload) scenario_store))) = 1
   \<and> length (kv_getByPrefix (js ''history:'')
        (snd (update_defect scenario_verifyAuth scenario_host
               (scenario_request scenario_payload) scenario_store))) = 1"
proof -
  have hyps:
    "authenticate scenario_verifyAuth (scenario_request scenario_payload) = Inr scenario_user"
    "body (scenario_request scenario_payload) = Some scenario_payload"
    "scenario_payload \<noteq> JNull"
    "kv_get scenario_store
       (history_key (randomUUID scenario_host 0) (randomUUID scenario_host 1)) = None"
    "kv_get scenario_store (defect_key (param_id (scenario_request scenario_payload)))
       = Some scenario_defect"
    "kv_get scenario_store
       (history_key (param_id (scenario_request scenario_payload))
          (randomUUID scenario_host 0)) = None"
    by (simp_all add: scenario_authenticate scenario_request_simps scenario_store_get
          scenario_store_fresh scenario_payload_def)
  from history_written_once [of scenario_verifyAuth "scenario_request scenario_payload"
      scenario_user scenario_payload scenario_store scenario_host scenario_defect] hyps
  show ?thesis
    by (auto simp: scenario_store_no_history split: prod.splits)
qed

lemma new_comment_names:
  "distinct [js ''id'', js ''author'', js ''comment'', js ''timestamp'']"
  by (simp add: js_eq_iff)

lemma field_new_comment:
  "field (new_comment h user b) (js ''id'') = Some (JStr (randomUUID h 0))"
  "field (new_comment h user b) (js ''author'') = Some (JStr (uid user))"
  "field (new_comment h user b) (js ''comment'') = get_prop b (js ''comment'')"
  "field (new_comment h user b) (js ''timestamp'') = Some (JStr (nowISO h 0))"
  using new_comment_names
  by (simp_all add: new_comment_def field_obj_lit js_eq_iff split: option.splits)

lemma add_comment_ok:
  assumes "authenticate verifyAuth req = Inr user" and "body req = Some b" and "b \<noteq> JNull"
    and "kv_get s (defect_key (param_id req)) = Some d"
    and "comments_or_empty d = Some (JArr cs)"
  shows "add_comment verifyAuth h req s =
           (\<lparr>code = 200, payload = JObj [(js ''comment'', JObj (new_comment h user b))]\<rparr>,
            kv_set (defect_key (param_id req))
              (upsert (js ''comments'') (JArr (cs @ [JObj (new_comment h user b)])) d) s)"
  using assms by (simp add: add_comment_def Let_def)

section \<open>Role update\<close>

lemma includes_role_iff:
  "includes_role role \<longleftrightarrow>
     role \<in> {Some (JStr (js ''observer'')), Some (JStr (js ''engineer'')),
              Some (JStr (js ''manager'')), Some (JStr (js ''admin''))}"
  by (auto simp: includes_role_def validRoles_def split: option.splits json.splits)

text \<open>
  C5. For a role-update request with a valid token: when the caller's stored User record
  is absent or its role is not \<^verbatim>\<open>admin\<close>, the answer is 403 whatever the body is (the
  body is not even read), and the store is unchanged; when the caller is an admin and the
  body parses to a value other than \<^verbatim>\<open>null\<close> whose role is not one of observer,
  engineer, manager, admin, the answer is 400 and the store is unchanged. (A body that does
  not parse, or \<^verbatim>\<open>null\<close>, carries no role to read: the handler then answers 500.)
\<close>

theorem role_update_rejected:
  "(authenticate verifyAuth req = Inr caller
      \<and> (kv_get s (user_key (uid caller)) = None
          \<or> (\<exists>p. kv_get s (user_key (uid caller)) = Some p
                  \<and> field p (js ''role'') \<noteq> Some (JStr (js ''admin''))))
    \<longrightarrow> update_user_role verifyAuth h req s
          = (error_response 403 ''Forbidden: Admin access required'', s, None)
        \<and> code (fst (update_user_role verifyAuth h req s)) = 403)
   \<and> (authenticate verifyAuth req = Inr caller
      \<and> kv_get s (user_key (uid caller)) = Some p
      \<and> field p (js ''role'') = Some (JStr (js ''admin''))
      \<and> body req = Some b \<and> b \<noteq> JNull
      \<and> get_prop b (js ''role'')
          \<notin> {Some (JStr (js ''observer'')), Some (JStr (js ''engineer'')),
              Some (JStr (js ''manager'')), Some (JStr (js ''admin''))}
    \<longrightarrow> update_user_role verifyAuth h req s = (error_response 400 ''Invalid role'', s, None)
        \<and> code (fst (update_user_role verifyAuth h req s)) = 400)"
proof (intro conjI impI)
  assume a: "authenticate verifyAuth req = Inr caller
      \<and> (kv_get s (user_key (uid caller)) = None
          \<or> (\<exists>p. kv_get s (user_key (uid caller)) = Some p
                  \<and> field p (js ''role'') \<noteq> Some (JStr (js ''admin''))))"
  then show r: "update_user_role verifyAuth h req s
          = (error_response 403 ''Forbidden: Admin access required'', s, None)"
    by (auto simp: update_user_role_def)
  show "code (fst (update_user_role verifyAuth h req s)) = 403"
    by (simp add: r error_response_def)
next
  assume a: "authenticate verifyAuth req = Inr caller
      \<and> kv_get s (user_key (uid caller)) = Some p
      \<and> field p (js ''role'') = Some (JStr (js ''admin''))
      \<and> body req = Some b \<and> b \<noteq> JNull
      \<and> get_prop b (js ''role'')
          \<notin> {Some (JStr (js ''observer'')), Some (JStr (js ''engineer'')),
              Some (JStr (js ''manager'')), Some (JStr (js ''admin''))}"
  then have "\<not> includes_role (get_prop b (js ''role''))"
    by (simp only: includes_role_iff simp_thms)
  with a show r: "update_user_role verifyAuth h req s
                    = (error_response 400 ''Invalid role'', s, None)"
    by (simp add: update_user_role_def Let_def)
  show "code (fst (update_user_role verifyAuth h req s)) = 400"
    by (simp add: r error_response_def)
qed

theorem role_update_rejected_witness:
  "code (fst (update_user_role scenario_verifyAuth scenario_host
                (scenario_request scenario_role_body) scenario_store)) = 403
   \<and> fst (snd (update_user_role scenario_verifyAuth scenario_host
                 (scenario_request scenario_role_body) scenario_store)) = scenario_store
   \<and> code (fst (update_user_role scenario_verifyAuth scenario_host
                (scenario_request scenario_role_body) scenario_admin_store)) = 400
   \<and> fst (snd (update_user_role scenario_verifyAuth scenario_host
                 (scenario_request scenario_role_body) scenario_admin_store))
       = scenario_admin_store"
proof -
  have auth: "authenticate scenario_verifyAuth (scenario_request scenario_role_body)
                = Inr scenario_user"
    by (rule scenario_authenticate)
  have absent: "kv_get scenario_store (user_key (uid scenario_user)) = None"
    by (simp add: scenario_store_def kv_get_def user_key_def defect_key_def scenario_user_def
          js_def)
  have admin:
    "kv_get scenario_admin_store (user_key (uid scenario_user))
       = Some [(js ''id'', JStr (js ''u1'')), (js ''role'', JStr (js ''admin''))]"
    "field [(js ''id'', JStr (js ''u1'')), (js ''role'', JStr (js ''admin''))] (js ''role'')
       = Some (JStr (js ''admin''))"
    by (simp_all add: scenario_admin_store_def kv_get_def scenario_user_def field_def js_eq_iff)
  have payload:
    "body (scenario_request scenario_role_body) = Some scenario_role_body"
    "scenario_role_body \<noteq> JNull"
    "get_prop scenario_role_body (js ''role'')
       \<notin> {Some (JStr (js ''observer'')), Some (JStr (js ''engineer'')),
           Some (JStr (js ''manager'')), Some (JStr (js ''admin''))}"
    by (simp_all add: scenario_request_simps scenario_role_body_def field_def js_eq_iff)
  from role_update_rejected [where verifyAuth = scenario_verifyAuth
      and req = "scenario_request scenario_role_body" and caller = scenario_user
      and s = scenario_store and h = scenario_host]
    auth absent
  have one: "update_user_role scenario_verifyAuth scenario_host
               (scenario_request scenario_role_body) scenario_store
             = (error_response 403 ''Forbidden: Admin access required'', scenario_store, None)"
    by blast
  from role_update_rejected [where verifyAuth = scenario_verifyAuth
      and req = "scenario_request scenario_role_body" and caller = scenario_user
      and s = scenario_admin_store and h = scenario_host and b = scenario_role_body
      and p = "[(js ''id'', JStr (js ''u1'')), (js ''role'', JStr (js ''admin''))]"]
    auth admin payload
  have two: "update_user_role scenario_verifyAuth scenario_host
               (scenario_request scenario_role_body) scenario_admin_store
             = (error_response 400 ''Invalid role'', scenario_admin_store, None)"
    by blast
  show ?thesis
    by (simp add: one two error_response_def)
qed

section \<open>Signup\<close>

lemma signup_identity_role:
  "field (cu_user_metadata (signup_identity b)) (js ''role'') = Some (JStr (js ''observer''))"
proof -
  have "distinct [js ''name'', js ''role'']"
    by (simp add: js_eq_iff)
  then show ?thesis
    by (simp add: signup_identity_def field_obj_lit js_eq_iff)
qed

lemma signup_profile_role:
  "field (signup_profile h b user) (js ''role'') = Some (JStr (js ''observer''))"
proof -
  have "distinct [js ''id'', js ''email'', js ''name'', js ''role'', js ''createdAt'']"
    by (simp add: js_eq_iff)
  then show ?thesis
    by (simp add: signup_profile_def field_obj_lit js_eq_iff)
qed

lemma signup_reads:
  assumes "\<forall>k. k \<noteq> js ''role'' \<longrightarrow> field f1 k = field f2 k"
  shows "signup_identity (JObj f1) = signup_identity (JObj f2)"
    and "signup_profile h (JObj f1) user = signup_profile h (JObj f2) user"
proof -
  have "field f1 (js ''email'') = field f2 (js ''email'')"
    "field f1 (js ''password'') = field f2 (js ''password'')"
    "field f1 (js ''name'') = field f2 (js ''name'')"
    using assms by (simp_all add: js_eq_iff)
  then show "signup_identity (JObj f1) = signup_identity (JObj f2)"
    and "signup_profile h (JObj f1) user = signup_profile h (JObj f2) user"
    by (simp_all add: signup_identity_def signup_profile_def)
qed

text \<open>
  C6. Two signup requests whose bodies are objects that agree on every field other than
  \<^verbatim>\<open>role\<close> have the same outcome (response and store); the identity asked of the
  Authenticator is the same in both runs and carries role \<^verbatim>\<open>observer\<close>; and when
  the identity is created, the stored User record has role \<^verbatim>\<open>observer\<close>, otherwise
  nothing is stored.
\<close>

theorem signup_role_ignored:
  assumes "\<forall>k. k \<noteq> js ''role'' \<longrightarrow> field f1 k = field f2 k"
  shows "signup createUser h (req\<lparr>body := Some (JObj f1)\<rparr>) s
           = signup createUser h (req\<lparr>body := Some (JObj f2)\<rparr>) s
         \<and> signup_identity (JObj f1) = signup_identity (JObj f2)
         \<and> field (cu_user_metadata (signup_identity (JObj f1))) (js ''role'')
             = Some (JStr (js ''observer''))
         \<and> (case createUser (signup_identity (JObj f1)) of
               Some (Inr user) \<Rightarrow>
                 (case kv_get (snd (signup createUser h (req\<lparr>body := Some (JObj f1)\<rparr>) s))
                         (js ''user:'' @ uid user) of
                    None \<Rightarrow> False
                  | Some profile \<Rightarrow> field profile (js ''role'') = Some (JStr (js ''observer'')))
             | _ \<Rightarrow> snd (signup createUser h (req\<lparr>body := Some (JObj f1)\<rparr>) s) = s)"
proof -
  note same = signup_reads [OF assms]
  have "signup createUser h (req\<lparr>body := Some (JObj f1)\<rparr>) s
           = signup createUser h (req\<lparr>body := Some (JObj f2)\<rparr>) s"
    by (simp add: signup_def same split: option.splits sum.splits)
  moreover have "case createUser (signup_identity (JObj f1)) of
               Some (Inr user) \<Rightarrow>
                 (case kv_get (snd (signup createUser h (req\<lparr>body := Some (JObj f1)\<rparr>) s))
                         (js ''user:'' @ uid user) of
                    None \<Rightarrow> False
                  | Some profile \<Rightarrow> field profile (js ''role'') = Some (JStr (js ''observer'')))
             | _ \<Rightarrow> snd (signup createUser h (req\<lparr>body := Some (JObj f1)\<rparr>) s) = s"
    by (simp add: signup_def kv_get_set signup_profile_role split: option.splits sum.splits)
  ultimately show ?thesis
    using same(1) signup_identity_role by simp
qed

theorem signup_role_ignored_witness:
  "signup scenario_createUser scenario_host
     \<lparr>authorization = None, body = Some (JObj (scenario_signup ''admin'')), param_id = []\<rparr> []
   = signup scenario_createUser scenario_host
     \<lparr>authorization = None, body = Some (JObj (scenario_signup ''observer'')), param_id = []\<rparr> []
   \<and> scenario_signup ''admin'' \<noteq> scenario_signup ''observer''"
proof -
  have "\<forall>k. k \<noteq> js ''role''
          \<longrightarrow> field (scenario_signup ''admin'') k = field (scenario_signup ''observer'') k"
    by (simp add: scenario_signup_def field_def)
  from signup_role_ignored [OF this, of scenario_createUser scenario_host
      "\<lparr>authorization = None, body = None, param_id = []\<rparr>" "[]"]
  show ?thesis
    by (simp add: scenario_signup_def js_eq_iff)
qed

section \<open>Update: merge and history details\<close>

lemma field_merged_defect:
  assumes "distinct (map fst fs)"
  shows "field (merged_defect h d (JObj fs)) k =
           (if k = js ''updatedAt'' then Some (JStr (nowISO h 0))
            else case field fs k of None \<Rightarrow> field d k | Some v \<Rightarrow> Some v)"
  using assms by (simp add: merged_defect_def field_upsert field_spread)

text \<open>
  C3, as the code has it. With a valid token, an object payload and an existing defect,
  the update answers 200; the stored document is the shallow merge of the payload onto
  the existing record with \<^verbatim>\<open>updatedAt\<close> stamped anew; and the history entry written has
  action \<^verbatim>\<open>updated\<close> and details that consist of the fixed label followed by the names
  of all the fields of the payload, joined by commas, whether or not their values differ
  from the stored ones. The values do not occur in it.
\<close>

theorem update_merges_and_lists_payload_names:
  assumes "authenticate verifyAuth req = Inr user" and "body req = Some (JObj fs)"
    and "distinct (map fst fs)"
    and "kv_get s (defect_key (param_id req)) = Some d"
  shows "case update_defect verifyAuth h req s of
           (r, s') \<Rightarrow>
             code r = 200
             \<and> (\<forall>k. stored_field s' (defect_key (param_id req)) k =
                      (if k = js ''updatedAt'' then Some (JStr (nowISO h 0))
                       else case field fs k of None \<Rightarrow> field d k | Some v \<Rightarrow> Some v))
             \<and> stored_field s' (history_key (param_id req) (randomUUID h 0)) (js ''action'')
                 = Some (JStr (js ''updated''))
             \<and> stored_field s' (history_key (param_id req) (randomUUID h 0)) (js ''details'')
                 = Some (JStr (details_updated @ join (js '', '') (map fst fs)))"
proof -
  have "JObj fs \<noteq> JNull"
    by simp
  note ok = update_defect_ok [OF assms(1,2) this assms(4)]
  show ?thesis
    using defect_key_neq_history [of "param_id req" "param_id req" "randomUUID h 0"]
    by (simp add: ok stored_field_def kv_get_set field_history_entry update_details_def
          field_merged_defect [OF assms(3)])
qed

theorem update_merges_and_lists_payload_names_witness:
  "authenticate scenario_verifyAuth (scenario_request scenario_payload) = Inr scenario_user
   \<and> body (scenario_request scenario_payload) = Some scenario_payload
   \<and> scenario_payload = JObj [(js ''priority'', JStr (js ''Low''))]
   \<and> distinct (map fst [(js ''priority'', JStr (js ''Low''))])
   \<and> kv_get scenario_store (defect_key (param_id (scenario_request scenario_payload)))
        = Some scenario_defect
   \<and> stored_field
        (snd (update_defect scenario_verifyAuth scenario_host
                (scenario_request scenario_payload) scenario_store))
        (defect_key (js ''d1'')) (js ''title'') = Some (JStr (js ''Crack''))
   \<and> stored_field
        (snd (update_defect scenario_verifyAuth scenario_host
                (scenario_request scenario_payload) scenario_store))
        (defect_key (js ''d1'')) (js ''updatedAt'') = Some (JStr (js ''T0''))"
proof -
  have hyps:
    "authenticate scenario_verifyAuth (scenario_request scenario_payload) = Inr scenario_user"
    "body (scenario_request scenario_payload) = Some (JObj [(js ''priority'', JStr (js ''Low''))])"
    "distinct (map fst [(js ''priority'', JStr (js ''Low''))])"
    "kv_get scenario_store (defect_key (param_id (scenario_request scenario_payload)))
       = Some scenario_defect"
    by (simp_all add: scenario_authenticate scenario_request_simps scenario_store_get
          scenario_payload_def)
  have host: "nowISO scenario_host 0 = js ''T0''"
    by (simp add: scenario_host_def js_def)
  from update_merges_and_lists_payload_names [OF hyps, of scenario_host] hyps
  show ?thesis
    by (auto simp: scenario_request_simps scenario_payload_def scenario_defect_def field_def
          js_eq_iff host split: prod.splits)
qed

text \<open>
  The claim C3 as it is worded fails: a payload that repeats the stored priority leaves
  the value as it was, and the details of the history entry name \<^verbatim>\<open>priority\<close> all
  the same.
\<close>

theorem details_name_unchanged_field:
  "stored_field scenario_store (defect_key (js ''d1'')) (js ''priority'')
     = Some (JStr (js ''Low''))
   \<and> stored_field
        (snd (update_defect scenario_verifyAuth scenario_host
                (scenario_request (JObj [(js ''priority'', JStr (js ''Low''))])) scenario_store))
        (defect_key (js ''d1'')) (js ''priority'') = Some (JStr (js ''Low''))
   \<and> stored_field
        (snd (update_defect scenario_verifyAuth scenario_host
                (scenario_request (JObj [(js ''priority'', JStr (js ''Low''))])) scenario_store))
        (history_key (js ''d1'') (js ''id0'')) (js ''details'')
       = Some (JStr (details_updated @ js ''priority''))"
proof -
  have host: "randomUUID scenario_host 0 = js ''id0''"
    by (simp add: scenario_host_def js_def)
  have ok: "update_defect scenario_verifyAuth scenario_host
              (scenario_request (JObj [(js ''priority'', JStr (js ''Low''))])) scenario_store
            = (\<lparr>code = 200,
                payload = JObj [(js ''defect'', JObj (merged_defect scenario_host scenario_defect
                            (JObj [(js ''priority'', JStr (js ''Low''))])))]\<rparr>,
               kv_set (history_key (js ''d1'') (js ''id0''))
                 (history_entry (js ''id0'') (js ''d1'') (js ''updated'') (uid scenario_user)
                    (nowISO scenario_host 1)
                    (update_details (JObj [(js ''priority'', JStr (js ''Low''))])))
                 (kv_set (defect_key (js ''d1''))
                    (merged_defect scenario_host scenario_defect
                       (JObj [(js ''priority'', JStr (js ''Low''))])) scenario_store))"
    using update_defect_ok [of scenario_verifyAuth
        "scenario_request (JObj [(js ''priority'', JStr (js ''Low''))])" scenario_user
        "JObj [(js ''priority'', JStr (js ''Low''))]" scenario_store scenario_defect scenario_host]
    by (simp add: scenario_authenticate scenario_request_simps scenario_store_get host)
  have d: "distinct (map fst [(js ''priority'', JStr (js ''Low''))])"
    by simp
  show ?thesis
    using defect_key_neq_history [of "js ''d1''" "js ''d1''" "js ''id0''"]
    by (simp add: ok stored_field_def kv_get_set scenario_store_get field_history_entry
          update_details_def field_merged_defect [OF d] js_eq_iff)
       (simp add: scenario_defect_def field_def js_eq_iff)
qed

section \<open>The comment sequence under the three operations\<close>

lemma field_spread_other: "k \<notin> fst ` set b \<Longrightarrow> field (spread a b) k = field a k"
proof (induction b arbitrary: a)
  case Nil
  then show ?case
    by (simp add: spread_def)
next
  case (Cons p b)
  obtain k' v' where p: "p = (k', v')"
    by (cases p)
  have "spread a ((k', v') # b) = spread (upsert k' v' a) b"
    by (simp add: spread_def)
  moreover have "field (upsert k' v' a) k = field a k"
    using Cons.prems p by (simp add: field_upsert)
  ultimately show ?case
    using Cons p by simp
qed


lemma create_defect_store:
  "snd (create_defect verifyAuth h req s) = s
   \<or> (\<exists>defect entry.
         snd (create_defect verifyAuth h req s)
           = kv_set (history_key (randomUUID h 0) (randomUUID h 1)) entry
               (kv_set (defect_key (randomUUID h 0)) defect s))"
  by (auto simp: create_defect_def Let_def split: sum.splits option.splits)

lemma create_keeps_comments:
  assumes "kv_get s (defect_key (randomUUID h 0)) = None"
  shows "prefix (stored_comments s i) (stored_comments (snd (create_defect verifyAuth h req s)) i)"
proof (cases "i = randomUUID h 0")
  case True
  then have "stored_comments s i = []"
    using assms by (simp add: stored_comments_def stored_field_def)
  then show ?thesis
    by simp
next
  case False
  then have "stored_comments (snd (create_defect verifyAuth h req s)) i = stored_comments s i"
    using create_defect_store [of verifyAuth h req s]
      defect_key_neq_history [of i "randomUUID h 0" "randomUUID h 1"]
    by (auto simp: stored_comments_def stored_field_def kv_get_set defect_key_eq_iff)
  then show ?thesis
    by simp
qed

lemma update_defect_store:
  "snd (update_defect verifyAuth h req s) = s
   \<or> (\<exists>b d. body req = Some b \<and> kv_get s (defect_key (param_id req)) = Some d
         \<and> (snd (update_defect verifyAuth h req s)
              = kv_set (defect_key (param_id req)) (merged_defect h d b) s
            \<or> (\<exists>entry. snd (update_defect verifyAuth h req s)
                  = kv_set (history_key (param_id req) (randomUUID h 0)) entry
                      (kv_set (defect_key (param_id req)) (merged_defect h d b) s))))"
  by (auto simp: update_defect_def Let_def split: sum.splits option.splits)

lemma merged_defect_comments:
  "js ''comments'' \<notin> fst ` set (own_props b) \<Longrightarrow>
   field (merged_defect h d b) (js ''comments'') = field d (js ''comments'')"
  by (simp add: merged_defect_def field_upsert field_spread_other js_eq_iff)

lemma update_keeps_comments:
  assumes "\<forall>b. body req = Some b \<longrightarrow> js ''comments'' \<notin> fst ` set (own_props b)"
  shows "prefix (stored_comments s i) (stored_comments (snd (update_defect verifyAuth h req s)) i)"
proof -
  have "stored_comments (snd (update_defect verifyAuth h req s)) i = stored_comments s i"
    using update_defect_store [of verifyAuth h req s] assms
      defect_key_neq_history [of i "param_id req" "randomUUID h 0"]
    by (auto simp: stored_comments_def stored_field_def kv_get_set merged_defect_comments
          defect_key_eq_iff)
  then show ?thesis
    by simp
qed

lemma add_comment_store:
  "snd (add_comment verifyAuth h req s) = s
   \<or> (\<exists>d cs c. kv_get s (defect_key (param_id req)) = Some d
         \<and> comments_or_empty d = Some (JArr cs)
         \<and> snd (add_comment verifyAuth h req s)
             = kv_set (defect_key (param_id req))
                 (upsert (js ''comments'') (JArr (cs @ [c])) d) s)"
  by (auto simp: add_comment_def Let_def split: sum.splits option.splits json.splits)

lemma comments_or_empty_array:
  "comments_or_empty d = Some (JArr cs) \<Longrightarrow>
   (case field d (js ''comments'') of Some (JArr cs') \<Rightarrow> cs' | _ \<Rightarrow> []) = cs
   \<or> (case field d (js ''comments'') of Some (JArr cs') \<Rightarrow> cs' | _ \<Rightarrow> []) = []"
  by (auto simp: comments_or_empty_def split: if_splits option.splits json.splits)

lemma add_comment_keeps_comments:
  "prefix (stored_comments s i) (stored_comments (snd (add_comment verifyAuth h req s)) i)"
proof -
  consider "snd (add_comment verifyAuth h req s) = s"
    | d cs c where "kv_get s (defect_key (param_id req)) = Some d"
        "comments_or_empty d = Some (JArr cs)"
        "snd (add_comment verifyAuth h req s)
           = kv_set (defect_key (param_id req)) (upsert (js ''comments'') (JArr (cs @ [c])) d) s"
    using add_comment_store [of verifyAuth h req s] by blast
  then show ?thesis
  proof cases
    case 1
    then show ?thesis by simp
  next
    case 2
    show ?thesis
    proof (cases "i = param_id req")
      case True
      have "stored_comments (snd (add_comment verifyAuth h req s)) i = cs @ [c]"
        using 2 True by (simp add: stored_comments_def stored_field_def kv_get_set field_upsert)
      moreover have "stored_comments s i = cs \<or> stored_comments s i = []"
        using comments_or_empty_array [OF 2(2)] 2(1) True
        by (simp add: stored_comments_def stored_field_def)
      ultimately show ?thesis
        by auto
    next
      case False
      then have "stored_comments (snd (add_comment verifyAuth h req s)) i = stored_comments s i"
        using 2 by (simp add: stored_comments_def stored_field_def kv_get_set defect_key_eq_iff)
      then show ?thesis by simp
    qed
  qed
qed

text \<open>
  C4, as the code has it. For every stored defect, the comment sequence before is a
  prefix of the comment sequence after: a defect create (whose drawn identifier is
  fresh), an add comment, and an update whose payload has no \<^verbatim>\<open>comments\<close> property.
  An update whose payload carries \<^verbatim>\<open>comments\<close> stores the supplied value in place of
  the sequence.
\<close>

theorem comments_append_only_unless_supplied:
  "(kv_get s (defect_key (randomUUID h 0)) = None
      \<longrightarrow> prefix (stored_comments s i)
            (stored_comments (snd (create_defect verifyAuth h req s)) i))
   \<and> prefix (stored_comments s i) (stored_comments (snd (add_comment verifyAuth h req s)) i)
   \<and> ((\<forall>b. body req = Some b \<longrightarrow> js ''comments'' \<notin> fst ` set (own_props b))
      \<longrightarrow> prefix (stored_comments s i)
            (stored_comments (snd (update_defect verifyAuth h req s)) i))
   \<and> (authenticate verifyAuth req = Inr user \<and> body req = Some (JObj fs)
        \<and> distinct (map fst fs) \<and> field fs (js ''comments'') = Some v
        \<and> kv_get s (defect_key (param_id req)) = Some d
      \<longrightarrow> stored_field (snd (update_defect verifyAuth h req s)) (defect_key (param_id req))
            (js ''comments'') = Some v)"
proof (intro conjI impI)
  assume a: "authenticate verifyAuth req = Inr user \<and> body req = Some (JObj fs)
        \<and> distinct (map fst fs) \<and> field fs (js ''comments'') = Some v
        \<and> kv_get s (defect_key (param_id req)) = Some d"
  then have ok: "update_defect verifyAuth h req s =
           (\<lparr>code = 200, payload = JObj [(js ''defect'', JObj (merged_defect h d (JObj fs)))]\<rparr>,
            kv_set (history_key (param_id req) (randomUUID h 0))
              (history_entry (randomUUID h 0) (param_id req) (js ''updated'') (uid user)
                 (nowISO h 1) (update_details (JObj fs)))
              (kv_set (defect_key (param_id req)) (merged_defect h d (JObj fs)) s))"
    using update_defect_ok [of verifyAuth req user "JObj fs" s d h] by simp
  show "stored_field (snd (update_defect verifyAuth h req s)) (defect_key (param_id req))
            (js ''comments'') = Some v"
    using a defect_key_neq_history [of "param_id req" "param_id req" "randomUUID h 0"]
    by (simp add: ok stored_field_def kv_get_set field_merged_defect js_eq_iff)
qed (simp_all add: create_keeps_comments add_comment_keeps_comments update_keeps_comments)

lemma field_Nil: "field [] k = None"
  by (simp add: field_def)

lemma field_Cons: "field ((k', v) # d) k = (if k = k' then Some v else field d k)"
  by (simp add: field_def)

lemma scenario_host_simps:
  "randomUUID scenario_host 0 = js ''id0''"
  "randomUUID scenario_host 1 = js ''id1''"
  "nowISO scenario_host 0 = js ''T0''"
  by (simp_all add: scenario_host_def js_def)

lemma scenario_stored_comments:
  "stored_comments scenario_store (js ''d1'')
     = [JObj [(js ''id'', JStr (js ''c1'')), (js ''comment'', JStr (js ''seen''))]]"
  by (simp add: stored_comments_def stored_field_def scenario_store_get)
     (simp add: scenario_defect_def field_def js_eq_iff)

theorem comments_append_only_unless_supplied_witness:
  "kv_get scenario_store (defect_key (randomUUID scenario_host 0)) = None
   \<and> prefix (stored_comments scenario_store (js ''d1''))
        (stored_comments
           (snd (create_defect scenario_verifyAuth scenario_host
                   (scenario_request scenario_payload) scenario_store)) (js ''d1''))
   \<and> prefix (stored_comments scenario_store (js ''d1''))
        (stored_comments
           (snd (update_defect scenario_verifyAuth scenario_host
                   (scenario_request scenario_payload) scenario_store)) (js ''d1''))
   \<and> stored_field
        (snd (update_defect scenario_verifyAuth scenario_host
                (scenario_request scenario_wipe) scenario_store))
        (defect_key (js ''d1'')) (js ''comments'') = Some (JArr [])"
proof -
  have fresh: "kv_get scenario_store (defect_key (randomUUID scenario_host 0)) = None"
    by (simp add: scenario_host_simps scenario_store_def kv_get_def defect_key_eq_iff js_eq_iff)
  have plain: "\<forall>b. body (scenario_request scenario_payload) = Some b
                 \<longrightarrow> js ''comments'' \<notin> fst ` set (own_props b)"
    by (simp add: scenario_request_simps scenario_payload_def js_eq_iff)
  have wipe:
    "authenticate scenario_verifyAuth (scenario_request scenario_wipe) = Inr scenario_user"
    "body (scenario_request scenario_wipe) = Some (JObj [(js ''comments'', JArr [])])"
    "distinct (map fst [(js ''comments'', JArr [])])"
    "field [(js ''comments'', JArr [])] (js ''comments'') = Some (JArr [])"
    "kv_get scenario_store (defect_key (param_id (scenario_request scenario_wipe)))
       = Some scenario_defect"
    by (simp_all add: scenario_authenticate scenario_request_simps scenario_wipe_def
          scenario_store_get field_def)
  from comments_append_only_unless_supplied [where s = scenario_store and h = scenario_host
      and i = "js ''d1''" and verifyAuth = scenario_verifyAuth
      and req = "scenario_request scenario_payload"] fresh plain
  have one:
    "prefix (stored_comments scenario_store (js ''d1''))
        (stored_comments
           (snd (create_defect scenario_verifyAuth scenario_host
                   (scenario_request scenario_payload) scenario_store)) (js ''d1''))"
    "prefix (stored_comments scenario_store (js ''d1''))
        (stored_comments
           (snd (update_defect scenario_verifyAuth scenario_host
                   (scenario_request scenario_payload) scenario_store)) (js ''d1''))"
    by blast+
  from comments_append_only_unless_supplied [where s = scenario_store and h = scenario_host
      and verifyAuth = scenario_verifyAuth and req = "scenario_request scenario_wipe"
      and user = scenario_user and fs = "[(js ''comments'', JArr [])]" and v = "JArr []"
      and d = scenario_defect] wipe
  have two:
    "stored_field
        (snd (update_defect scenario_verifyAuth scenario_host
                (scenario_request scenario_wipe) scenario_store))
        (defect_key (js ''d1'')) (js ''comments'') = Some (JArr [])"
    by (simp add: scenario_request_simps)
  show ?thesis
    using fresh one two by simp
qed

text \<open>
  The claim C4 as it is worded fails: an update whose payload carries an empty
  \<^verbatim>\<open>comments\<close> array removes the stored comment.
\<close>

theorem update_replaces_comments:
  "stored_comments scenario_store (js ''d1'')
     = [JObj [(js ''id'', JStr (js ''c1'')), (js ''comment'', JStr (js ''seen''))]]
   \<and> stored_comments
        (snd (update_defect scenario_verifyAuth scenario_host
                (scenario_request scenario_wipe) scenario_store)) (js ''d1'') = []
   \<and> \<not> prefix (stored_comments scenario_store (js ''d1''))
          (stored_comments
             (snd (update_defect scenario_verifyAuth scenario_host
                     (scenario_request scenario_wipe) scenario_store)) (js ''d1''))"
proof -
  have ok: "snd (update_defect scenario_verifyAuth scenario_host
                   (scenario_request scenario_wipe) scenario_store)
            = kv_set (history_key (js ''d1'') (js ''id0''))
                 (history_entry (js ''id0'') (js ''d1'') (js ''updated'') (uid scenario_user)
                    (nowISO scenario_host 1) (update_details scenario_wipe))
                 (kv_set (defect_key (js ''d1''))
                    (merged_defect scenario_host scenario_defect scenario_wipe) scenario_store)"
    using update_defect_ok [of scenario_verifyAuth "scenario_request scenario_wipe"
        scenario_user scenario_wipe scenario_store scenario_defect scenario_host]
    by (simp add: scenario_authenticate scenario_request_simps scenario_store_get
          scenario_host_simps scenario_wipe_def)
  have d: "distinct (map fst [(js ''comments'', JArr [])])"
    by simp
  have after: "stored_comments
        (snd (update_defect scenario_verifyAuth scenario_host
                (scenario_request scenario_wipe) scenario_store)) (js ''d1'') = []"
    using defect_key_neq_history [of "js ''d1''" "js ''d1''" "js ''id0''"]
    by (simp add: ok stored_comments_def stored_field_def kv_get_set)
       (simp add: scenario_wipe_def field_merged_defect [OF d] js_eq_iff field_Cons)
  show ?thesis
    by (simp add: after scenario_stored_comments)
qed


section \<open>No validation of field values\<close>

lemma field_new_defect_payload:
  assumes "k \<in> {js ''title'', js ''description'', js ''priority'', js ''assignee'',
                 js ''projectId'', js ''dueDate''}"
  shows "field (new_defect h user b) k = get_prop b k"
  using assms new_defect_names
  by (auto simp: new_defect_def field_obj_lit js_eq_iff)





section \<open>The history of an update whose body is null\<close>

lemma update_defect_null:
  assumes "authenticate verifyAuth req = Inr user" and "body req = Some JNull"
    and "kv_get s (defect_key (param_id req)) = Some d"
  shows "update_defect verifyAuth h req s
           = (error_response 500 ''Internal server error while updating defect'',
              kv_set (defect_key (param_id req)) (merged_defect h d JNull) s)"
  using assms by (simp add: update_defect_def Let_def)

lemma merged_defect_null:
  "merged_defect h d JNull = upsert (js ''updatedAt'') (JStr (nowISO h 0)) d"
  by (simp add: merged_defect_def spread_def)

text \<open>
  C2 at the update \<^verbatim>\<open>PUT /defects/d1\<close> with the JSON body \<^verbatim>\<open>null\<close>, sent with a valid
  token while the defect \<^verbatim>\<open>d1\<close> is stored and the history is empty. The handler merges
  and stores the defect with a new \<^verbatim>\<open>updatedAt\<close>; then \<^verbatim>\<open>Object.keys(null)\<close> throws,
  the call answers 500, and no history entry is written: the history is as empty as it
  was, although the call has changed the stored defect.
\<close>

theorem update_null_body_writes_no_history:
  "kv_get scenario_store (defect_key (param_id (scenario_request JNull))) = Some scenario_defect
   \<and> kv_getByPrefix (js ''history:'') scenario_store = []
   \<and> stored_field scenario_store (defect_key (js ''d1'')) (js ''updatedAt'') = None
   \<and> fst (update_defect scenario_verifyAuth scenario_host (scenario_request JNull)
             scenario_store)
       = error_response 500 ''Internal server error while updating defect''
   \<and> stored_field
        (snd (update_defect scenario_verifyAuth scenario_host (scenario_request JNull)
                scenario_store))
        (defect_key (js ''d1'')) (js ''updatedAt'') = Some (JStr (js ''T0''))
   \<and> kv_getByPrefix (js ''history:'')
        (snd (update_defect scenario_verifyAuth scenario_host (scenario_request JNull)
                scenario_store)) = []"
proof -
  have call: "update_defect scenario_verifyAuth scenario_host (scenario_request JNull)
                scenario_store
              = (error_response 500 ''Internal server error while updating defect'',
                 kv_set (defect_key (js ''d1''))
                   (upsert (js ''updatedAt'') (JStr (js ''T0'')) scenario_defect) scenario_store)"
    using update_defect_null [of scenario_verifyAuth "scenario_request JNull" scenario_user
        scenario_store scenario_defect scenario_host]
    by (simp add: scenario_authenticate scenario_request_simps scenario_store_get
          merged_defect_null scenario_host_simps)
  have before: "field scenario_defect (js ''updatedAt'') = None"
    by (simp add: scenario_defect_def field_Cons field_Nil js_eq_iff)
  show ?thesis
    by (simp add: call before scenario_request_simps scenario_store_get
          scenario_store_no_history stored_field_def kv_get_set field_upsert
          kv_getByPrefix_set_other defect_not_history)
qed

section \<open>Adding a comment\<close>

lemma prior_comments_Some:
  "prior_comments d = Some cs \<Longrightarrow> comments_or_empty d = Some (JArr cs)"
  by (auto simp: prior_comments_def comments_or_empty_def
      split: option.splits json.splits if_splits)

lemma prior_comments_None:
  "prior_comments d = None \<Longrightarrow> \<exists>v. comments_or_empty d = Some v \<and> (\<forall>cs. v \<noteq> JArr cs)"
  by (auto simp: prior_comments_def comments_or_empty_def
      split: option.splits json.splits if_splits)

lemma add_comment_no_sequence:
  assumes "authenticate verifyAuth req = Inr user" and "body req = Some b" and "b \<noteq> JNull"
    and "kv_get s (defect_key (param_id req)) = Some d"
    and "prior_comments d = None"
  shows "add_comment verifyAuth h req s
           = (error_response 500 ''Internal server error while adding comment'', s)"
proof -
  obtain v where "comments_or_empty d = Some v" and "\<forall>cs. v \<noteq> JArr cs"
    using prior_comments_None [OF assms(5)] by blast
  then show ?thesis
    using assms(1-4) by (cases v) (simp_all add: add_comment_def Let_def)
qed

text \<open>
  C9, for every add-comment call on an existing defect \<open>d\<close>. A call without a valid
  token gets the refusal of the authentication, and a call whose body is not JSON or is
  \<^verbatim>\<open>null\<close>, or whose defect holds under \<^verbatim>\<open>comments\<close> something that is no sequence
  (a number other than 0, \<^verbatim>\<open>true\<close>, a text, an object), answers 500; none of these
  stores anything. Every other call answers 200, leaves the history entries as they
  were, and stores the prior document with its comment sequence followed by the one
  new comment \<^verbatim>\<open>{id, author: caller id, comment, timestamp}\<close>; no other document changes.
\<close>

theorem comment_appended:
  assumes "kv_get s (defect_key (param_id req)) = Some d"
  shows "case add_comment verifyAuth h req s of
           (r, s') \<Rightarrow>
             (case authenticate verifyAuth req of
                Inl refusal \<Rightarrow> r = refusal \<and> s' = s
              | Inr user \<Rightarrow>
                  (case body req of
                     None \<Rightarrow> code r = 500 \<and> s' = s
                   | Some b \<Rightarrow>
                       if b = JNull then code r = 500 \<and> s' = s
                       else
                         (case prior_comments d of
                            None \<Rightarrow> code r = 500 \<and> s' = s
                          | Some cs \<Rightarrow>
                              code r = 200
                              \<and> kv_getByPrefix (js ''history:'') s'
                                  = kv_getByPrefix (js ''history:'') s
                              \<and> (\<exists>d'. kv_get s' (defect_key (param_id req)) = Some d'
                                     \<and> field d' (js ''comments'')
                                         = Some (JArr (cs @ [JObj (new_comment h user b)]))
                                     \<and> (\<forall>k. k \<noteq> js ''comments'' \<longrightarrow> field d' k = field d k))
                              \<and> (\<forall>k. k \<noteq> defect_key (param_id req)
                                       \<longrightarrow> kv_get s' k = kv_get s k)
                              \<and> field (new_comment h user b) (js ''id'')
                                  = Some (JStr (randomUUID h 0))
                              \<and> field (new_comment h user b) (js ''author'')
                                  = Some (JStr (uid user))
                              \<and> field (new_comment h user b) (js ''comment'')
                                  = get_prop b (js ''comment'')
                              \<and> field (new_comment h user b) (js ''timestamp'')
                                  = Some (JStr (nowISO h 0)))))"
proof (cases "authenticate verifyAuth req")
  case (Inl refusal)
  then show ?thesis
    by (simp add: add_comment_def)
next
  case (Inr user)
  show ?thesis
  proof (cases "body req")
    case None
    then show ?thesis
      using Inr by (simp add: add_comment_def Let_def error_response_def)
  next
    case (Some b)
    show ?thesis
    proof (cases "b = JNull")
      case True
      then show ?thesis
        using Inr Some by (simp add: add_comment_def Let_def error_response_def)
    next
      case False
      show ?thesis
      proof (cases "prior_comments d")
        case None
        then show ?thesis
          using Inr Some False
          by (simp add: add_comment_no_sequence [OF Inr Some False assms None]
                error_response_def)
      next
        case cs: (Some cs)
        show ?thesis
          using Inr Some False cs
          by (simp add: add_comment_ok [OF Inr Some False assms prior_comments_Some [OF cs]]
                kv_getByPrefix_set_other defect_not_history kv_get_set field_upsert
                field_new_comment)
      qed
    qed
  qed
qed

lemma scenario_prior_comments:
  "prior_comments scenario_defect
     = Some [JObj [(js ''id'', JStr (js ''c1'')), (js ''comment'', JStr (js ''seen''))]]"
  by (simp add: prior_comments_def scenario_defect_def field_Cons js_eq_iff)

theorem comment_appended_witness:
  "kv_get scenario_store (defect_key (param_id (scenario_request scenario_comment_body)))
     = Some scenario_defect
   \<and> code (fst (add_comment scenario_verifyAuth scenario_host
                   (scenario_request scenario_comment_body) scenario_store)) = 200
   \<and> kv_getByPrefix (js ''history:'')
        (snd (add_comment scenario_verifyAuth scenario_host
                (scenario_request scenario_comment_body) scenario_store)) = []
   \<and> stored_comments
        (snd (add_comment scenario_verifyAuth scenario_host
                (scenario_request scenario_comment_body) scenario_store)) (js ''d1'')
       = [JObj [(js ''id'', JStr (js ''c1'')), (js ''comment'', JStr (js ''seen''))],
          JObj (new_comment scenario_host scenario_user scenario_comment_body)]"
proof -
  have stored:
    "kv_get scenario_store (defect_key (param_id (scenario_request scenario_comment_body)))
       = Some scenario_defect"
    by (simp add: scenario_request_simps scenario_store_get)
  have body: "scenario_comment_body \<noteq> JNull"
    by (simp add: scenario_comment_body_def)
  from comment_appended [OF stored, where verifyAuth = scenario_verifyAuth
      and h = scenario_host] stored body
  show ?thesis
    by (auto simp: scenario_authenticate scenario_request_simps scenario_prior_comments
        scenario_store_no_history stored_comments_def stored_field_def
        split: prod.splits)
qed

text \<open>
  The claim C9 as it is worded fails: after an update has put a text under
  \<^verbatim>\<open>comments\<close>, an add-comment call on the defect answers 500 and stores nothing; no
  comment is appended.
\<close>

theorem comment_not_appended:
  "kv_get (snd (update_defect scenario_verifyAuth scenario_host
                  (scenario_request scenario_text_comments) scenario_store))
      (defect_key (param_id (scenario_request scenario_comment_body)))
     = Some (merged_defect scenario_host scenario_defect scenario_text_comments)
   \<and> field (merged_defect scenario_host scenario_defect scenario_text_comments)
        (js ''comments'') = Some (JStr (js ''soon''))
   \<and> add_comment scenario_verifyAuth scenario_host (scenario_request scenario_comment_body)
        (snd (update_defect scenario_verifyAuth scenario_host
                (scenario_request scenario_text_comments) scenario_store))
       = (error_response 500 ''Internal server error while adding comment'',
          snd (update_defect scenario_verifyAuth scenario_host
                 (scenario_request scenario_text_comments) scenario_store))"
proof -
  let ?d = "merged_defect scenario_host scenario_defect scenario_text_comments"
  let ?s = "snd (update_defect scenario_verifyAuth scenario_host
                   (scenario_request scenario_text_comments) scenario_store)"
  have ok: "?s = kv_set (history_key (js ''d1'') (js ''id0''))
                 (history_entry (js ''id0'') (js ''d1'') (js ''updated'') (uid scenario_user)
                    (nowISO scenario_host 1) (update_details scenario_text_comments))
                 (kv_set (defect_key (js ''d1'')) ?d scenario_store)"
    using update_defect_ok [of scenario_verifyAuth "scenario_request scenario_text_comments"
        scenario_user scenario_text_comments scenario_store scenario_defect scenario_host]
    by (simp add: scenario_authenticate scenario_request_simps scenario_store_get
          scenario_host_simps scenario_text_comments_def)
  have stored: "kv_get ?s (defect_key (param_id (scenario_request scenario_comment_body)))
                  = Some ?d"
    using defect_key_neq_history [of "js ''d1''" "js ''d1''" "js ''id0''"]
    by (simp add: ok kv_get_set scenario_request_simps)
  have d: "distinct (map fst [(js ''comments'', JStr (js ''soon''))])"
    by simp
  have held: "field ?d (js ''comments'') = Some (JStr (js ''soon''))"
    by (simp add: scenario_text_comments_def field_merged_defect [OF d] js_eq_iff field_Cons)
  have "prior_comments ?d = None"
    by (simp add: prior_comments_def held js_not_Nil)
  then have "add_comment scenario_verifyAuth scenario_host
               (scenario_request scenario_comment_body) ?s
             = (error_response 500 ''Internal server error while adding comment'', ?s)"
    using add_comment_no_sequence [of scenario_verifyAuth
        "scenario_request scenario_comment_body" scenario_user scenario_comment_body ?s ?d
        scenario_host] stored
    by (simp add: scenario_authenticate scenario_request_simps scenario_comment_body_def)
  then show ?thesis
    using stored held by simp
qed

section \<open>Properties of the analytics scan\<close>

lemma those_None_iff: "those xs = None \<longleftrightarrow> None \<in> set xs"
  by (induction xs) (auto split: option.splits)

lemma to_string_None_iff: "to_string E v = None \<longleftrightarrow> inconvertible v"
proof (induction E v rule: to_string.induct)
  case (5 E xs)
  let ?f = "\<lambda>x. if x = JNull then Some [] else to_string E x"
  have f: "?f x = None \<longleftrightarrow> inconvertible x" if "x \<in> set xs" for x
    using 5 [OF that] by (cases "x = JNull") simp_all
  have "those (map ?f xs) = None \<longleftrightarrow> (\<exists>x \<in> set xs. ?f x = None)"
  proof
    assume "those (map ?f xs) = None"
    then have "None \<in> ?f ` set xs"
      by (simp add: those_None_iff)
    then obtain x where "x \<in> set xs" and "None = ?f x"
      by (rule imageE)
    then show "\<exists>x \<in> set xs. ?f x = None"
      by (intro bexI [of _ x]) simp_all
  next
    assume "\<exists>x \<in> set xs. ?f x = None"
    then obtain x where "x \<in> set xs" and "?f x = None"
      by blast
    then have "None \<in> ?f ` set xs"
      by (intro image_eqI [of _ _ x]) simp_all
    then show "those (map ?f xs) = None"
      by (simp add: those_None_iff)
  qed
  also have "\<dots> \<longleftrightarrow> (\<exists>x \<in> set xs. inconvertible x)"
    using f by blast
  finally show ?case
    by simp
next
  case (6 E fs)
  then show ?case
    by (cases "map_of fs (js ''toString'')")
      (simp_all add: field_def dom_map_of_conv_image_fst [symmetric] domIff)
qed simp_all

lemma property_key_None_iff:
  "property_key E v = None \<longleftrightarrow> (case v of None \<Rightarrow> False | Some x \<Rightarrow> inconvertible x)"
  by (simp add: property_key_def to_string_None_iff split: option.splits)

lemma truthy_dueDate: "truthy (field d (js ''dueDate'')) = dueDate_is_set d"
  by (simp add: dueDate_is_set_def split: option.splits json.splits)

lemma closed_label: "closed = label_Closed"
  by (simp add: closed_def label_Closed_def)

text \<open>
  One pass of the loop body: it throws on the stored values described by \<open>breaks_scan\<close>
  and on no others; otherwise it counts the defect, and counts it as overdue when it is
  overdue at the reading of the clock.
\<close>

lemma analytics_step_at:
  "if breaks_scan d then analytics_step E clock d (n, a) = None
   else \<exists>n' sc pc.
          analytics_step E clock d (n, a)
            = Some (n', \<lparr>totalDefects = totalDefects a + 1,
                         overdue = overdue a + (if overdue_defect E (clock n) d then 1 else 0),
                         statusCount = sc, priorityCount = pc\<rparr>)"
proof (cases "property_key E (field d (js ''status''))")
  case None
  then have "breaks_scan d"
    using property_key_None_iff [of E "field d (js ''status'')"] by (simp add: breaks_scan_def)
  then show ?thesis
    by (simp add: analytics_step_def None)
next
  case s: (Some ks)
  then have s': "\<not> (case field d (js ''status'') of None \<Rightarrow> False | Some v \<Rightarrow> inconvertible v)"
    using property_key_None_iff [of E "field d (js ''status'')"] by simp
  show ?thesis
  proof (cases "property_key E (field d (js ''priority''))")
    case None
    then have "breaks_scan d"
      using property_key_None_iff [of E "field d (js ''priority'')"]
      by (simp add: breaks_scan_def)
    then show ?thesis
      by (simp add: analytics_step_def s None)
  next
    case p: (Some kp)
    then have p': "\<not> (case field d (js ''priority'') of None \<Rightarrow> False | Some v \<Rightarrow> inconvertible v)"
      using property_key_None_iff [of E "field d (js ''priority'')"] by simp
    show ?thesis
    proof (cases "field d (js ''dueDate'')")
      case None
      then show ?thesis
        using s p s' p'
        by (simp add: analytics_step_def breaks_scan_def dueDate_is_set_def overdue_defect_def)
    next
      case (Some v)
      show ?thesis
      proof (cases "truthy (Some v)")
        case False
        then have "\<not> dueDate_is_set d"
          using Some truthy_dueDate [of d] by simp
        then show ?thesis
          using s p s' p' Some False
          by (simp add: analytics_step_def breaks_scan_def overdue_defect_def)
      next
        case True
        then have set: "dueDate_is_set d"
          using Some truthy_dueDate [of d] by simp
        show ?thesis
        proof (cases "to_string E v")
          case None
          then have "inconvertible v"
            by (simp add: to_string_None_iff)
          then show ?thesis
            using s p Some True None set
            by (simp add: analytics_step_def breaks_scan_def Date_of_def)
        next
          case c: (Some str)
          then have "\<not> inconvertible v"
            using to_string_None_iff [of E v] by simp
          then have nb: "\<not> breaks_scan d"
            using s' p' Some by (simp add: breaks_scan_def)
          have "overdue_defect E (clock n) d \<longleftrightarrow>
                  (case date_time E v of None \<Rightarrow> False | Some t \<Rightarrow> t < clock n)
                  \<and> field d (js ''status'') \<noteq> Some (JStr closed)"
            using set Some by (simp add: overdue_defect_def dueDate_earlier_def closed_label)
          then show ?thesis
            using s p Some True c nb
            by (cases "date_time E v") (simp_all add: analytics_step_def Date_of_def Let_def)
        qed
      qed
    qed
  qed
qed

text \<open>The scan at a clock that stands still during the request.\<close>

lemma analytics_loop_at:
  "if \<exists>d \<in> set ds. breaks_scan d then analytics_loop E (\<lambda>n. now) ds (n, a) = None
   else \<exists>n' sc pc.
          analytics_loop E (\<lambda>n. now) ds (n, a)
            = Some (n', \<lparr>totalDefects = totalDefects a + length ds,
                         overdue = overdue a + length (filter (overdue_defect E now) ds),
                         statusCount = sc, priorityCount = pc\<rparr>)"
proof (induction ds arbitrary: n a)
  case Nil
  show ?case
    by (cases a) simp
next
  case (Cons d ds)
  show ?case
  proof (cases "breaks_scan d")
    case True
    then show ?thesis
      using analytics_step_at [of d E "\<lambda>n. now" n a] by simp
  next
    case False
    then obtain n' sc pc where step:
      "analytics_step E (\<lambda>n. now) d (n, a)
         = Some (n', \<lparr>totalDefects = totalDefects a + 1,
                      overdue = overdue a + (if overdue_defect E now d then 1 else 0),
                      statusCount = sc, priorityCount = pc\<rparr>)"
      using analytics_step_at [of d E "\<lambda>n. now" n a] by auto
    let ?a = "\<lparr>totalDefects = totalDefects a + 1,
                overdue = overdue a + (if overdue_defect E now d then 1 else 0),
                statusCount = sc, priorityCount = pc\<rparr>"
    note IH = Cons.IH [of n' ?a]
    show ?thesis
    proof (cases "\<exists>x \<in> set ds. breaks_scan x")
      case True
      then have "analytics_loop E (\<lambda>n. now) ds (n', ?a) = None"
        using IH by simp
      then show ?thesis
        using True by (simp add: step)
    next
      case none: False
      then have "\<exists>n'' sc' pc'.
                   analytics_loop E (\<lambda>n. now) ds (n', ?a)
                     = Some (n'', \<lparr>totalDefects = totalDefects ?a + length ds,
                                   overdue = overdue ?a + length (filter (overdue_defect E now) ds),
                                   statusCount = sc', priorityCount = pc'\<rparr>)"
        using IH by (simp only: if_False)
      then obtain n'' sc' pc' where
        "analytics_loop E (\<lambda>n. now) ds (n', ?a)
           = Some (n'', \<lparr>totalDefects = totalDefects ?a + length ds,
                         overdue = overdue ?a + length (filter (overdue_defect E now) ds),
                         statusCount = sc', priorityCount = pc'\<rparr>)"
        by blast
      then show ?thesis
        using none False by (simp add: step)
    qed
  qed
qed

lemma analytics_scan_at:
  "if \<exists>d \<in> set ds. breaks_scan d then analytics_scan E (\<lambda>n. now) ds = None
   else \<exists>sc pc.
          analytics_scan E (\<lambda>n. now) ds
            = Some \<lparr>totalDefects = length ds,
                    overdue = length (filter (overdue_defect E now) ds),
                    statusCount = sc, priorityCount = pc\<rparr>"
  using analytics_loop_at
    [of ds E now 0 "\<lparr>totalDefects = 0, overdue = 0, statusCount = [], priorityCount = []\<rparr>"]
  by (auto simp: analytics_scan_def)

text \<open>
  C1, for an authenticated request at the time \<open>now\<close>. Where no stored status, priority or
  set dueDate is an object with an own property \<^verbatim>\<open>toString\<close> (or an array holding one),
  the endpoint answers 200, its \<^verbatim>\<open>totalDefects\<close> is the number of defects, and its
  \<^verbatim>\<open>overdue\<close> is the number of defects whose dueDate is set, is a date strictly earlier
  than \<open>now\<close>, and whose status is not Closed. Where one defect holds such a value, the
  endpoint answers 500 and reports no count at all. A request that is not authenticated
  gets the refusal of the authentication.
\<close>

theorem overdue_count:
  "case authenticate verifyAuth req of
     Inl refusal \<Rightarrow> get_analytics E verifyAuth (\<lambda>n. now) req s = refusal
   | Inr user \<Rightarrow>
       if \<exists>d \<in> set (kv_getByPrefix (js ''defect:'') s). breaks_scan d
       then get_analytics E verifyAuth (\<lambda>n. now) req s
              = error_response 500 ''Internal server error while fetching analytics''
       else code (get_analytics E verifyAuth (\<lambda>n. now) req s) = 200
            \<and> get_prop (payload (get_analytics E verifyAuth (\<lambda>n. now) req s)) (js ''overdue'')
                = Some (JNum (of_nat (length (filter (overdue_defect E now)
                                                (kv_getByPrefix (js ''defect:'') s)))))
            \<and> get_prop (payload (get_analytics E verifyAuth (\<lambda>n. now) req s))
                 (js ''totalDefects'')
                = Some (JNum (of_nat (length (kv_getByPrefix (js ''defect:'') s))))"
proof (cases "authenticate verifyAuth req")
  case (Inl refusal)
  then show ?thesis
    by (simp add: get_analytics_def)
next
  case (Inr user)
  show ?thesis
  proof (cases "\<exists>d \<in> set (kv_getByPrefix (js ''defect:'') s). breaks_scan d")
    case True
    then have "analytics_scan E (\<lambda>n. now) (kv_getByPrefix (js ''defect:'') s) = None"
      using analytics_scan_at [of "kv_getByPrefix (js ''defect:'') s" E now] by simp
    then show ?thesis
      using Inr True by (simp add: get_analytics_def)
  next
    case False
    then obtain sc pc where
      "analytics_scan E (\<lambda>n. now) (kv_getByPrefix (js ''defect:'') s)
         = Some \<lparr>totalDefects = length (kv_getByPrefix (js ''defect:'') s),
                 overdue = length (filter (overdue_defect E now)
                                     (kv_getByPrefix (js ''defect:'') s)),
                 statusCount = sc, priorityCount = pc\<rparr>"
      using analytics_scan_at [of "kv_getByPrefix (js ''defect:'') s" E now] by auto
    then show ?thesis
      using Inr False by (simp add: get_analytics_def field_Cons js_eq_iff)
  qed
qed

lemma scenario_due_defects:
  "kv_getByPrefix (js ''defect:'') scenario_due_store
     = [scenario_late, scenario_done, scenario_undated]"
  by (simp add: scenario_due_store_def kv_getByPrefix_def defect_key_def)

lemma scenario_due_overdue:
  "overdue_defect scenario_engine scenario_now scenario_late"
  "\<not> overdue_defect scenario_engine scenario_now scenario_done"
  "\<not> overdue_defect scenario_engine scenario_now scenario_undated"
  by (simp_all add: overdue_defect_def dueDate_is_set_def dueDate_earlier_def scenario_late_def
        scenario_done_def scenario_undated_def field_Cons field_Nil js_eq_iff scenario_engine_def
        scenario_now_def label_Closed_def status_new_def js_not_Nil)

lemma scenario_due_readable:
  "\<not> breaks_scan scenario_late" "\<not> breaks_scan scenario_done" "\<not> breaks_scan scenario_undated"
  by (simp_all add: breaks_scan_def dueDate_is_set_def scenario_late_def
        scenario_done_def scenario_undated_def field_Cons field_Nil js_eq_iff)

theorem overdue_count_witness:
  "authenticate scenario_verifyAuth (scenario_request JNull) = Inr scenario_user
   \<and> length (kv_getByPrefix (js ''defect:'') scenario_due_store) = 3
   \<and> code (get_analytics scenario_engine scenario_verifyAuth (\<lambda>n. scenario_now)
             (scenario_request JNull) scenario_due_store) = 200
   \<and> get_prop (payload (get_analytics scenario_engine scenario_verifyAuth (\<lambda>n. scenario_now)
                          (scenario_request JNull) scenario_due_store)) (js ''overdue'')
       = Some (JNum 1)"
  using overdue_count [where verifyAuth = scenario_verifyAuth and req = "scenario_request JNull"
      and E = scenario_engine and now = scenario_now and s = scenario_due_store]
  by (simp add: scenario_authenticate scenario_due_defects scenario_due_overdue
        scenario_due_readable)

text \<open>
  The claim C1 as it is worded fails: \<^verbatim>\<open>POST /defects\<close> stores a priority that is an
  object with a property \<^verbatim>\<open>toString\<close>; the stored defect is overdue at the request
  time, yet the endpoint answers 500 and reports no overdue count.
\<close>

theorem overdue_count_lost:
  "kv_getByPrefix (js ''defect:'')
      (snd (create_defect scenario_verifyAuth scenario_host
              (scenario_request scenario_unreadable) []))
     = [new_defect scenario_host scenario_user scenario_unreadable]
   \<and> overdue_defect scenario_engine scenario_now
        (new_defect scenario_host scenario_user scenario_unreadable)
   \<and> get_analytics scenario_engine scenario_verifyAuth (\<lambda>n. scenario_now)
        (scenario_request JNull)
        (snd (create_defect scenario_verifyAuth scenario_host
                (scenario_request scenario_unreadable) []))
       = error_response 500 ''Internal server error while fetching analytics''
   \<and> get_prop (payload (get_analytics scenario_engine scenario_verifyAuth (\<lambda>n. scenario_now)
                          (scenario_request JNull)
                          (snd (create_defect scenario_verifyAuth scenario_host
                                  (scenario_request scenario_unreadable) []))))
        (js ''overdue'') = None"
proof -
  let ?d = "new_defect scenario_host scenario_user scenario_unreadable"
  let ?s = "snd (create_defect scenario_verifyAuth scenario_host
                   (scenario_request scenario_unreadable) [])"
  have "?s = kv_set (history_key (randomUUID scenario_host 0) (randomUUID scenario_host 1))
               (history_entry (randomUUID scenario_host 1) (randomUUID scenario_host 0)
                  (js ''created'') (uid scenario_user) (nowISO scenario_host 2) details_created)
               (kv_set (defect_key (randomUUID scenario_host 0)) ?d [])"
    using create_defect_ok [of scenario_verifyAuth "scenario_request scenario_unreadable"
        scenario_user scenario_unreadable scenario_host "[]"]
    by (simp add: scenario_authenticate scenario_request_simps scenario_unreadable_def)
  then have stored: "kv_getByPrefix (js ''defect:'') ?s = [?d]"
    by (simp add: kv_getByPrefix_def kv_set_def defect_key_def history_key_def js_def)
  have due: "field ?d (js ''dueDate'') = Some (JStr (js ''1970-01-01T22:00:00.000Z''))"
    using field_new_defect_payload [of "js ''dueDate''" scenario_host scenario_user
        scenario_unreadable]
    by (simp add: scenario_unreadable_def field_Cons js_eq_iff)
  have priority: "field ?d (js ''priority'') = Some (JObj [(js ''toString'', JNum 1)])"
    using field_new_defect_payload [of "js ''priority''" scenario_host scenario_user
        scenario_unreadable]
    by (simp add: scenario_unreadable_def field_Cons js_eq_iff)
  have status: "field ?d (js ''status'') = Some (JStr status_new)"
    by (rule field_new_defect)
  have overdue: "overdue_defect scenario_engine scenario_now ?d"
    by (simp add: overdue_defect_def dueDate_is_set_def dueDate_earlier_def due status
          scenario_engine_def scenario_now_def label_Closed_def status_new_def js_not_Nil)
  have "analytics_step scenario_engine (\<lambda>n. scenario_now) ?d st = None" for st
    by (cases st) (simp add: analytics_step_def property_key_def status priority field_Cons)
  then have "analytics_scan scenario_engine (\<lambda>n. scenario_now) [?d] = None"
    by (simp add: analytics_scan_def)
  then have answer:
    "get_analytics scenario_engine scenario_verifyAuth (\<lambda>n. scenario_now)
       (scenario_request JNull) ?s
       = error_response 500 ''Internal server error while fetching analytics''"
    by (simp add: get_analytics_def scenario_authenticate stored)
  show ?thesis
    by (simp only: stored overdue answer simp_thms)
       (simp add: error_response_def field_Cons field_Nil js_eq_iff)
qed

text \<open>
  The handler reads the clock once for every defect with a dueDate. When the readings of
  one request lie between \<open>lo\<close> and \<open>hi\<close>, the overdue count lies between the counts for
  these two times.
\<close>

lemma overdue_defect_mono:
  "overdue_defect E t d \<Longrightarrow> t \<le> t' \<Longrightarrow> overdue_defect E t' d"
  by (auto simp: overdue_defect_def dueDate_earlier_def split: option.splits)

lemma analytics_loop_between:
  assumes "\<forall>n. lo \<le> clock n \<and> clock n \<le> hi"
    and "analytics_loop E clock ds (n, a) = Some (n', a')"
  shows "overdue a + length (filter (overdue_defect E lo) ds) \<le> overdue a'
         \<and> overdue a' \<le> overdue a + length (filter (overdue_defect E hi) ds)"
  using assms(2)
proof (induction ds arbitrary: n a)
  case Nil
  then show ?case
    by simp
next
  case (Cons d ds)
  from Cons.prems obtain n1 a1 where
    step: "analytics_step E clock d (n, a) = Some (n1, a1)"
    and rest: "analytics_loop E clock ds (n1, a1) = Some (n', a')"
    by (cases "analytics_step E clock d (n, a)") auto
  have "overdue a1 = overdue a + (if overdue_defect E (clock n) d then 1 else 0)"
    using analytics_step_at [of d E clock n a] step
    by (cases "breaks_scan d") auto
  moreover have "overdue_defect E lo d \<Longrightarrow> overdue_defect E (clock n) d"
    using assms(1) overdue_defect_mono [of E lo d "clock n"] by simp
  moreover have "overdue_defect E (clock n) d \<Longrightarrow> overdue_defect E hi d"
    using assms(1) overdue_defect_mono [of E "clock n" d hi] by simp
  ultimately have "overdue a + (if overdue_defect E lo d then 1 else 0) \<le> overdue a1"
    and "overdue a1 \<le> overdue a + (if overdue_defect E hi d then 1 else 0)"
    by auto
  then show ?case
    using Cons.IH [OF rest] by (simp split: if_splits)
qed

lemma analytics_scan_between:
  assumes "\<forall>n. lo \<le> clock n \<and> clock n \<le> hi" and "analytics_scan E clock ds = Some a"
  shows "length (filter (overdue_defect E lo) ds) \<le> overdue a
         \<and> overdue a \<le> length (filter (overdue_defect E hi) ds)"
proof -
  let ?a = "\<lparr>totalDefects = 0, overdue = 0, statusCount = [], priorityCount = []\<rparr>"
  obtain n' where "analytics_loop E clock ds (0, ?a) = Some (n', a)"
    using assms(2) by (auto simp: analytics_scan_def)
  from analytics_loop_between [OF assms(1) this] show ?thesis
    by simp
qed

section \<open>Counting under a name that every object inherits\<close>

lemma counts_total_upsert:
  "counts_total c = Some t \<Longrightarrow>
   counts_total (upsert k (case map_of c k of None \<Rightarrow> CNum 1 | Some (CNum n) \<Rightarrow> CNum (n + 1)
                           | Some (CStr s) \<Rightarrow> other s) c) = Some (t + 1)"
proof (induction c arbitrary: t rule: counts_total.induct)
  case 1
  then show ?case by simp
next
  case (2 k' n c)
  then show ?case by (auto split: option.splits cell.splits)
next
  case (3 k' s c)
  then show ?case by simp
qed

lemma counts_total_bump:
  assumes "counts_total c = Some t" and "map_of object_prototype k = None"
  shows "counts_total (bump k c) = Some (t + 1)"
proof -
  have k: "k \<noteq> js ''__proto__''"
    using assms(2) by (auto simp: object_prototype_def js_def)
  have "next_cell c k =
          (case map_of c k of None \<Rightarrow> CNum 1 | Some (CNum n) \<Rightarrow> CNum (n + 1)
           | Some (CStr s) \<Rightarrow> if s = [] then CNum 1 else CStr (s @ js ''1''))"
    using assms(2) by (simp add: next_cell_def split: option.splits cell.splits)
  with counts_total_upsert [OF assms(1)] k show ?thesis
    by (simp add: bump_def set_cell_def)
qed

text \<open>What a pass of the loop body that does not throw has counted.\<close>

lemma analytics_step_counts:
  assumes "analytics_step E clock d (n, a) = Some (n', a')"
  shows "\<exists>ks kp. property_key E (field d (js ''status'')) = Some ks
                 \<and> property_key E (field d (js ''priority'')) = Some kp
                 \<and> totalDefects a' = totalDefects a + 1
                 \<and> statusCount a' = bump ks (statusCount a)
                 \<and> priorityCount a' = bump kp (priorityCount a)"
  using assms
  by (auto simp: analytics_step_def Let_def split: option.splits if_splits)

lemma analytics_loop_returns:
  "if \<exists>d \<in> set ds. breaks_scan d then analytics_loop E clock ds (n, a) = None
   else \<exists>n' a'. analytics_loop E clock ds (n, a) = Some (n', a')"
proof (induction ds arbitrary: n a)
  case Nil
  show ?case
    by simp
next
  case (Cons d ds)
  show ?case
  proof (cases "breaks_scan d")
    case True
    then show ?thesis
      using analytics_step_at [of d E clock n a] by simp
  next
    case False
    then obtain n' a' where "analytics_step E clock d (n, a) = Some (n', a')"
      using analytics_step_at [of d E clock n a] by auto
    then show ?thesis
      using Cons.IH [of n' a'] False by simp
  qed
qed

lemma analytics_loop_totals:
  assumes "analytics_loop E clock ds (n, a) = Some (n', a')"
    and "\<forall>d \<in> set ds. \<forall>k. property_key E (field d (js ''status'')) = Some k
                           \<longrightarrow> map_of object_prototype k = None"
    and "\<forall>d \<in> set ds. \<forall>k. property_key E (field d (js ''priority'')) = Some k
                           \<longrightarrow> map_of object_prototype k = None"
    and "counts_total (statusCount a) = Some (totalDefects a)"
    and "counts_total (priorityCount a) = Some (totalDefects a)"
  shows "totalDefects a' = totalDefects a + length ds
         \<and> counts_total (statusCount a') = Some (totalDefects a')
         \<and> counts_total (priorityCount a') = Some (totalDefects a')"
  using assms
proof (induction ds arbitrary: n a)
  case Nil
  then show ?case
    by simp
next
  case (Cons d ds)
  from Cons.prems(1) obtain n1 a1 where
    step: "analytics_step E clock d (n, a) = Some (n1, a1)"
    and rest: "analytics_loop E clock ds (n1, a1) = Some (n', a')"
    by (cases "analytics_step E clock d (n, a)") auto
  from analytics_step_counts [OF step] obtain ks kp where
    ks: "property_key E (field d (js ''status'')) = Some ks"
    and kp: "property_key E (field d (js ''priority'')) = Some kp"
    and a1: "totalDefects a1 = totalDefects a + 1"
      "statusCount a1 = bump ks (statusCount a)"
      "priorityCount a1 = bump kp (priorityCount a)"
    by blast
  have "map_of object_prototype ks = None" "map_of object_prototype kp = None"
    using Cons.prems(2,3) ks kp by simp_all
  then have "counts_total (statusCount a1) = Some (totalDefects a1)"
    "counts_total (priorityCount a1) = Some (totalDefects a1)"
    using Cons.prems(4,5) a1 by (simp_all add: counts_total_bump)
  then show ?case
    using Cons.IH [OF rest] Cons.prems(2,3) a1 by simp
qed

text \<open>
  C7 at a defect that \<^verbatim>\<open>POST /defects\<close> stores unchanged for the payload
  \<^verbatim>\<open>{"priority": "constructor"}\<close>. The scan reads \<^verbatim>\<open>priorityCount["constructor"]\<close>,
  finds the function \<^verbatim>\<open>Object\<close> that every object inherits, and \<^verbatim>\<open>+ 1\<close> makes a string
  of it: the scan returns, \<^verbatim>\<open>totalDefects\<close> is 1, \<^verbatim>\<open>statusCount\<close> holds the number 1,
  and \<^verbatim>\<open>priorityCount\<close> holds no number at all, so its values do not add up to
  \<^verbatim>\<open>totalDefects\<close>.
\<close>

theorem priority_count_inherited_name:
  "field (new_defect h user scenario_inherited_name) (js ''priority'')
     = Some (JStr (js ''constructor''))
   \<and> analytics_scan E clock [new_defect h user scenario_inherited_name]
       = Some \<lparr>totalDefects = 1, overdue = 0,
               statusCount = [(status_new, CNum 1)],
               priorityCount =
                 [(js ''constructor'', CStr (js ''function Object() { [native code] }1''))]\<rparr>
   \<and> map_option (\<lambda>a. counts_total (priorityCount a) = Some (totalDefects a))
        (analytics_scan E clock [new_defect h user scenario_inherited_name]) = Some False"
proof -
  have p: "field (new_defect h user scenario_inherited_name) (js ''priority'')
             = Some (JStr (js ''constructor''))"
    using field_new_defect_payload [of "js ''priority''" h user scenario_inherited_name]
    by (simp add: scenario_inherited_name_def field_Cons)
  have d: "field (new_defect h user scenario_inherited_name) (js ''dueDate'') = None"
    using field_new_defect_payload [of "js ''dueDate''" h user scenario_inherited_name]
    by (simp add: scenario_inherited_name_def field_Cons field_Nil js_eq_iff)
  have s: "field (new_defect h user scenario_inherited_name) (js ''status'')
             = Some (JStr status_new)"
    by (rule field_new_defect)
  have new: "map_of object_prototype status_new = None"
    by (simp add: object_prototype_def status_new_def js_def)
  have "status_new \<noteq> js ''__proto__''"
    by (simp add: status_new_def js_def)
  then have sc: "bump status_new [] = [(status_new, CNum 1)]"
    using new by (simp add: bump_def set_cell_def next_cell_def)
  have pc: "bump (js ''constructor'') []
              = [(js ''constructor'', CStr (js ''function Object() { [native code] }1''))]"
    by (simp add: bump_def set_cell_def next_cell_def object_prototype_def native_function_def
          js_eq_iff)
       (simp add: js_def)
  show ?thesis
    by (simp add: analytics_scan_def analytics_step_def p s d property_key_def sc pc)
qed

text \<open>
  Where no stored value makes the scan throw, the scan returns; and where, besides, no
  status and no priority names a property that \<^verbatim>\<open>{}\<close> inherits, both counts do add up
  to \<^verbatim>\<open>totalDefects\<close>, the number of defects.
\<close>

lemma counts_add_up_without_inherited_names:
  assumes "\<forall>d \<in> set ds. \<not> breaks_scan d"
    and "\<forall>d \<in> set ds. \<forall>k. property_key E (field d (js ''status'')) = Some k
                           \<longrightarrow> map_of object_prototype k = None"
    and "\<forall>d \<in> set ds. \<forall>k. property_key E (field d (js ''priority'')) = Some k
                           \<longrightarrow> map_of object_prototype k = None"
  shows "\<exists>a. analytics_scan E clock ds = Some a
             \<and> totalDefects a = length ds
             \<and> counts_total (statusCount a) = Some (totalDefects a)
             \<and> counts_total (priorityCount a) = Some (totalDefects a)"
proof -
  let ?a = "\<lparr>totalDefects = 0, overdue = 0, statusCount = [], priorityCount = []\<rparr>"
  obtain n' a' where loop: "analytics_loop E clock ds (0, ?a) = Some (n', a')"
    using analytics_loop_returns [of ds E clock 0 ?a] assms(1) by auto
  from analytics_loop_totals [OF loop assms(2,3)] loop show ?thesis
    by (simp add: analytics_scan_def)
qed

section \<open>Calendar arithmetic\<close>

declare year_down.simps [simp del] year_up.simps [simp del]

lemma year_down_le: "DayFromYear (year_down y d) \<le> d"
proof (induction y d rule: year_down.induct)
  case (1 y d)
  show ?case
  proof (cases "d < DayFromYear y")
    case True
    then show ?thesis
      using 1 by (subst year_down.simps) simp
  next
    case False
    then show ?thesis
      by (subst year_down.simps) simp
  qed
qed

lemma year_up_bounds:
  "DayFromYear y \<le> d \<Longrightarrow>
   DayFromYear (year_up y d) \<le> d \<and> d < DayFromYear (year_up y d + 1)"
proof (induction y d rule: year_up.induct)
  case (1 y d)
  show ?case
  proof (cases "DayFromYear (y + 1) \<le> d")
    case True
    then show ?thesis
      using 1 by (subst (1 2) year_up.simps) simp
  next
    case False
    then show ?thesis
      using 1 by (subst (1 2) year_up.simps) simp
  qed
qed

lemma YearFromDay_bounds:
  "DayFromYear (YearFromDay d) \<le> d" "d < DayFromYear (YearFromDay d + 1)"
  using year_up_bounds [OF year_down_le [where y = "1970 + d div 365" and d = d]]
  by (simp_all add: YearFromDay_def)

lemma DayFromYear_mono: "y1 \<le> y2 \<Longrightarrow> DayFromYear y1 \<le> DayFromYear y2"
proof (induction y2 rule: int_ge_induct)
  case base
  show ?case by simp
next
  case (step i)
  then show ?case
    using DayFromYear_less_next [of i] by simp
qed

lemma YearFromDay_mono:
  assumes "d1 \<le> d2"
  shows "YearFromDay d1 \<le> YearFromDay d2"
proof (rule ccontr)
  assume "\<not> YearFromDay d1 \<le> YearFromDay d2"
  then have "YearFromDay d2 + 1 \<le> YearFromDay d1"
    by simp
  then have "DayFromYear (YearFromDay d2 + 1) \<le> DayFromYear (YearFromDay d1)"
    by (rule DayFromYear_mono)
  then show False
    using YearFromDay_bounds(1) [of d1] YearFromDay_bounds(2) [of d2] assms by linarith
qed

lemma DayWithinYear_bounds:
  "0 \<le> DayWithinYear t" "DayWithinYear t < 365 + InLeapYear t"
proof -
  show "0 \<le> DayWithinYear t"
    using YearFromDay_bounds(1) [of "Day t"] by (simp add: DayWithinYear_def YearFromTime_def)
  have "DaysInYear (YearFromTime t) = 365 + InLeapYear t"
    by (simp add: InLeapYear_def DaysInYear_def)
  then show "DayWithinYear t < 365 + InLeapYear t"
    using YearFromDay_bounds(2) [of "Day t"] DayFromYear_next [of "YearFromDay (Day t)"]
    by (simp add: DayWithinYear_def YearFromTime_def)
qed

lemma InLeapYear_cases: "InLeapYear t = 0 \<or> InLeapYear t = 1"
  by (simp add: InLeapYear_def)

lemma MonthFromTime_bounds: "0 \<le> MonthFromTime t" "MonthFromTime t \<le> 11"
  by (simp_all add: MonthFromTime_def Let_def)

lemma DateFromTime_bounds: "1 \<le> DateFromTime t" "DateFromTime t \<le> 31"
proof -
  have "1 \<le> DateFromTime t \<and> DateFromTime t \<le> 31"
    using DayWithinYear_bounds [of t] InLeapYear_cases [of t]
    unfolding DateFromTime_def MonthFromTime_def Let_def
    by (auto split: if_splits)
  then show "1 \<le> DateFromTime t" "DateFromTime t \<le> 31"
    by simp_all
qed

lemma month_date_lex:
  assumes "InLeapYear t1 = InLeapYear t2" and "DayWithinYear t1 < DayWithinYear t2"
  shows "MonthFromTime t1 < MonthFromTime t2
         \<or> (MonthFromTime t1 = MonthFromTime t2 \<and> DateFromTime t1 < DateFromTime t2)"
  using assms DayWithinYear_bounds [of t1] DayWithinYear_bounds [of t2] InLeapYear_cases [of t2]
  unfolding DateFromTime_def MonthFromTime_def Let_def
  by (auto split: if_splits)

lemma unat_digit: "n < 10 \<Longrightarrow> unat (digit n) = 48 + n"
proof -
  assume "n < 10"
  then have "48 + n < 2 ^ LENGTH(16)"
    by simp
  then show ?thesis
    unfolding digit_def by (simp only: unat_of_nat mod_less)
qed

lemma digit_less_iff: "a < 10 \<Longrightarrow> b < 10 \<Longrightarrow> digit a < digit b \<longleftrightarrow> a < b"
  by (simp add: word_less_nat_alt unat_digit)

lemma digit_eq_iff: "a < 10 \<Longrightarrow> b < 10 \<Longrightarrow> digit a = digit b \<longleftrightarrow> a = b"
  by (metis unat_digit add_left_cancel)

lemma digit_not_T: "n < 10 \<Longrightarrow> digit n \<noteq> 0x54"
proof
  assume "n < 10" and "digit n = 0x54"
  then have "unat (digit n) = unat (0x54 :: 16 word)"
    by simp
  then show False
    using \<open>n < 10\<close> by (simp add: unat_digit)
qed

lemma length_pad: "length (pad w n) = w"
  by (induction w arbitrary: n) simp_all

lemma pad_no_T: "0x54 \<notin> set (pad w n)"
  by (induction w arbitrary: n) (simp_all add: digit_not_T)

lemma append_less_same_length:
  fixes xs ys :: "('a :: linorder) list"
  assumes "length xs = length ys"
  shows "xs @ u < ys @ v \<longleftrightarrow> xs < ys \<or> (xs = ys \<and> u < v)"
  using assms by (induction xs ys rule: list_induct2) auto

lemma decimal_step:
  fixes m n :: nat
  shows "m div 10 < n div 10 \<or> (m div 10 = n div 10 \<and> m mod 10 < n mod 10) \<longleftrightarrow> m < n"
proof -
  define q1 r1 q2 r2 where "q1 = m div 10" and "r1 = m mod 10" and "q2 = n div 10"
    and "r2 = n mod 10"
  have m: "m = 10 * q1 + r1" and n: "n = 10 * q2 + r2"
    by (simp_all add: q1_def r1_def q2_def r2_def)
  have r: "r1 < 10" "r2 < 10"
    by (simp_all add: r1_def r2_def)
  show ?thesis
    unfolding q1_def [symmetric] r1_def [symmetric] q2_def [symmetric] r2_def [symmetric]
    unfolding m n using r by auto
qed

lemma decimal_step_eq:
  fixes m n :: nat
  shows "m div 10 = n div 10 \<and> m mod 10 = n mod 10 \<longleftrightarrow> m = n"
  by (metis div_mult_mod_eq)

lemma pad_less_iff:
  "m < 10 ^ w \<Longrightarrow> n < 10 ^ w \<Longrightarrow>
   (pad w m < pad w n \<longleftrightarrow> m < n) \<and> (pad w m = pad w n \<longleftrightarrow> m = n)"
proof (induction w arbitrary: m n)
  case 0
  then show ?case by simp
next
  case (Suc w)
  have "m div 10 < 10 ^ w" "n div 10 < 10 ^ w"
    using Suc.prems by (simp_all add: less_mult_imp_div_less mult.commute)
  then have ih: "pad w (m div 10) < pad w (n div 10) \<longleftrightarrow> m div 10 < n div 10"
    "pad w (m div 10) = pad w (n div 10) \<longleftrightarrow> m div 10 = n div 10"
    using Suc.IH by simp_all
  have d: "digit (m mod 10) < digit (n mod 10) \<longleftrightarrow> m mod 10 < n mod 10"
    "digit (m mod 10) = digit (n mod 10) \<longleftrightarrow> m mod 10 = n mod 10"
    by (simp_all add: digit_less_iff digit_eq_iff)
  have "pad (Suc w) m < pad (Suc w) n \<longleftrightarrow>
          m div 10 < n div 10 \<or> (m div 10 = n div 10 \<and> m mod 10 < n mod 10)"
    by (simp add: append_less_same_length length_pad ih d)
  moreover have "pad (Suc w) m = pad (Suc w) n \<longleftrightarrow>
          m div 10 = n div 10 \<and> m mod 10 = n mod 10"
    by (simp add: length_pad ih d)
  ultimately show ?case
    by (simp only: decimal_step decimal_step_eq)
qed

lemma split_first: "c \<notin> set a \<Longrightarrow> split c (a @ c # b) = a # split c b"
  by (induction a) (auto split: list.splits)

lemma date_string_no_T: "0x54 \<notin> set (date_string t)"
  by (simp add: date_string_def year_string_def pad_no_T js_def)

lemma first_part_toISOString: "first_part (split 0x54 (toISOString t)) = date_string t"
proof -
  have "toISOString t = date_string t @ 0x54 # (time_string t @ js ''Z'')"
    by (simp add: toISOString_def js_def)
  then show ?thesis
    using split_first [OF date_string_no_T, of t "time_string t @ js ''Z''"]
    by (simp add: first_part_def)
qed

lemma date_string_Day: "Day t1 = Day t2 \<Longrightarrow> date_string t1 = date_string t2"
  by (simp add: date_string_def YearFromTime_def MonthFromTime_def DateFromTime_def
        DayWithinYear_def InLeapYear_def)

text \<open>With four-digit years, date strings are ordered as the dates they spell.\<close>

lemma date_string_less_iff:
  assumes "0 \<le> YearFromTime t1" "YearFromTime t1 \<le> 9999"
    and "0 \<le> YearFromTime t2" "YearFromTime t2 \<le> 9999"
  shows "date_string t1 < date_string t2 \<longleftrightarrow>
           YearFromTime t1 < YearFromTime t2
           \<or> (YearFromTime t1 = YearFromTime t2
               \<and> (MonthFromTime t1 < MonthFromTime t2
                   \<or> (MonthFromTime t1 = MonthFromTime t2
                       \<and> DateFromTime t1 < DateFromTime t2)))"
proof -
  have y: "nat (YearFromTime t1) < 10 ^ 4" "nat (YearFromTime t2) < 10 ^ 4"
    using assms by simp_all
  have m: "nat (MonthFromTime t1 + 1) < 10 ^ 2" "nat (MonthFromTime t2 + 1) < 10 ^ 2"
    using MonthFromTime_bounds [of t1] MonthFromTime_bounds [of t2] by simp_all
  have d: "nat (DateFromTime t1) < 10 ^ 2" "nat (DateFromTime t2) < 10 ^ 2"
    using DateFromTime_bounds [of t1] DateFromTime_bounds [of t2] by simp_all
  note py = pad_less_iff [OF y] and pm = pad_less_iff [OF m] and pd = pad_less_iff [OF d]
  have "date_string t1 < date_string t2 \<longleftrightarrow>
          nat (YearFromTime t1) < nat (YearFromTime t2)
          \<or> (nat (YearFromTime t1) = nat (YearFromTime t2)
              \<and> (nat (MonthFromTime t1 + 1) < nat (MonthFromTime t2 + 1)
                  \<or> (nat (MonthFromTime t1 + 1) = nat (MonthFromTime t2 + 1)
                      \<and> nat (DateFromTime t1) < nat (DateFromTime t2))))"
    using assms
    by (simp add: date_string_def year_string_def append_less_same_length length_pad py pm pd)
  then show ?thesis
    using assms MonthFromTime_bounds [of t1] MonthFromTime_bounds [of t2]
      DateFromTime_bounds [of t1] DateFromTime_bounds [of t2]
    by auto
qed

lemma date_string_mono:
  assumes "0 \<le> YearFromTime t1" "YearFromTime t1 \<le> 9999"
    and "0 \<le> YearFromTime t2" "YearFromTime t2 \<le> 9999"
    and "Day t1 < Day t2"
  shows "date_string t1 < date_string t2"
proof -
  have le: "YearFromTime t1 \<le> YearFromTime t2"
    using assms(5) by (simp add: YearFromTime_def YearFromDay_mono)
  show ?thesis
  proof (cases "YearFromTime t1 = YearFromTime t2")
    case True
    then have "InLeapYear t1 = InLeapYear t2" "DayWithinYear t1 < DayWithinYear t2"
      using assms(5) by (simp_all add: InLeapYear_def DayWithinYear_def)
    from month_date_lex [OF this] True show ?thesis
      by (simp add: date_string_less_iff [OF assms(1-4)])
  next
    case False
    with le show ?thesis
      by (simp add: date_string_less_iff [OF assms(1-4)])
  qed
qed

section \<open>Counting into an object\<close>

lemma upsert_keys: "fst ` set (upsert k v c) = insert k (fst ` set c)"
  by (induction c) auto

lemma distinct_upsert: "distinct (map fst c) \<Longrightarrow> distinct (map fst (upsert k v c))"
proof (induction c)
  case Nil
  then show ?case by simp
next
  case (Cons p c)
  show ?case
  proof (cases "fst p = k")
    case True
    then show ?thesis using Cons.prems by simp
  next
    case False
    have "fst p \<notin> fst ` set (upsert k v c)"
      using Cons.prems False by (simp add: upsert_keys)
    then show ?thesis
      using Cons False by simp
  qed
qed

lemma counted_bump:
  assumes "counted c n" and "map_of object_prototype k = None"
  shows "counted (bump k c) (n(k := n k + 1))"
proof -
  have k: "k \<noteq> js ''__proto__''"
    using assms(2) by (auto simp: object_prototype_def js_def)
  have "next_cell c k = CNum (n k + 1)"
    using assms by (simp add: next_cell_def counted_def)
  then have "bump k c = upsert k (CNum (n k + 1)) c"
    using k by (simp add: bump_def set_cell_def)
  then show ?thesis
    using assms(1) by (simp add: counted_def distinct_upsert map_of_upsert)
qed

lemma counted_keys: "counted c n \<Longrightarrow> fst ` set c = {k. n k \<noteq> 0}"
proof -
  assume c: "counted c n"
  have "k \<in> fst ` set c \<longleftrightarrow> n k \<noteq> 0" for k
  proof -
    have "map_of c k = (if n k = 0 then None else Some (CNum (n k)))"
      using c by (simp add: counted_def)
    then have "map_of c k = None \<longleftrightarrow> n k = 0"
      by simp
    then show ?thesis
      unfolding map_of_eq_None_iff by auto
  qed
  then show ?thesis
    by blast
qed

lemma counted_entry: "counted c n \<Longrightarrow> p \<in> set c \<Longrightarrow> snd p = CNum (n (fst p))"
proof -
  assume c: "counted c n" and p: "p \<in> set c"
  have "distinct (map fst c)" and "(fst p, snd p) \<in> set c"
    using c p by (simp_all add: counted_def)
  then have "map_of c (fst p) = Some (snd p)"
    by (rule map_of_is_SomeI)
  moreover have "map_of c (fst p) = (if n (fst p) = 0 then None else Some (CNum (n (fst p))))"
    using c by (simp add: counted_def)
  ultimately have "Some (snd p) = (if n (fst p) = 0 then None else Some (CNum (n (fst p))))"
    by (rule trans [OF sym])
  then show ?thesis
    by (cases "n (fst p) = 0") simp_all
qed

text \<open>Sorting the entries of a counted object by name.\<close>

lemma sort_counted:
  assumes "counted c n"
  shows "sort_key fst c = map (\<lambda>k. (k, CNum (n k))) (sorted_list_of_set (fst ` set c))"
proof -
  let ?R = "sort_key fst c"
  have d: "distinct (map fst c)"
    using assms by (simp add: counted_def)
  have "distinct (map fst ?R)"
    using d by (simp add: distinct_map)
  moreover have "sorted (map fst ?R)"
    by (rule sorted_sort_key)
  moreover have "set (map fst ?R) = fst ` set c"
    by simp
  ultimately have keys: "map fst ?R = sorted_list_of_set (fst ` set c)"
    by (intro sorted_distinct_set_unique) simp_all
  have "map (\<lambda>p. (fst p, CNum (n (fst p)))) ?R = ?R"
  proof (rule map_idI)
    fix p
    assume "p \<in> set ?R"
    then have "p \<in> set c"
      by simp
    from counted_entry [OF assms this] show "(fst p, CNum (n (fst p))) = p"
      by (cases p) simp
  qed
  then have "?R = map (\<lambda>k. (k, CNum (n k))) (map fst ?R)"
    by (simp add: comp_def)
  then show ?thesis
    using keys by simp
qed

section \<open>The time line\<close>

lemma Day_of_day: "Day (d * msPerDay) = d"
  by (simp add: Day_def msPerDay_def)

lemma date_string_day_string: "date_string t = day_string (Day t)"
  unfolding day_string_def by (rule date_string_Day) (simp add: Day_of_day)

lemma date_string_plain: "map_of object_prototype (date_string t) = None"
proof -
  have "0x2D \<in> set (date_string t)"
    by (simp add: date_string_def js_def)
  moreover have "\<forall>k \<in> fst ` set object_prototype. 0x2D \<notin> set k"
    by (simp add: object_prototype_def js_def)
  ultimately have "date_string t \<notin> fst ` set object_prototype"
    by blast
  then show ?thesis
    by (simp add: map_of_eq_None_iff)
qed

lemma timeline_date_valid:
  assumes "new_Date E (field defect (js ''createdAt'')) = Some t"
  shows "timeline_date E defect = Some (day_string (utc_day E defect))"
  using assms
  by (simp add: timeline_date_def first_part_toISOString utc_day_def date_string_day_string)

lemma timeline_loop_counted:
  assumes "\<forall>defect \<in> set defects. \<exists>t. new_Date E (field defect (js ''createdAt'')) = Some t"
    and "counted c n"
  shows "\<exists>timeline. timeline_loop E defects c = Some timeline
           \<and> counted timeline
               (\<lambda>k. n k + length (filter (\<lambda>defect. day_string (utc_day E defect) = k) defects))"
  using assms
proof (induction defects arbitrary: c n)
  case Nil
  then show ?case by simp
next
  case (Cons defect defects)
  obtain t where t: "new_Date E (field defect (js ''createdAt'')) = Some t"
    using Cons.prems(1) by auto
  let ?k = "day_string (utc_day E defect)"
  have date: "timeline_date E defect = Some ?k"
    by (rule timeline_date_valid [OF t])
  have "map_of object_prototype ?k = None"
    unfolding day_string_def by (rule date_string_plain)
  then have "counted (bump ?k c) (n(?k := n ?k + 1))"
    by (rule counted_bump [OF Cons.prems(2)])
  moreover have "\<forall>defect \<in> set defects.
      \<exists>t. new_Date E (field defect (js ''createdAt'')) = Some t"
    using Cons.prems(1) by simp
  ultimately obtain timeline where
    loop: "timeline_loop E defects (bump ?k c) = Some timeline"
    and cnt: "counted timeline
       (\<lambda>k. (n(?k := n ?k + 1)) k
             + length (filter (\<lambda>defect. day_string (utc_day E defect) = k) defects))"
    using Cons.IH by blast
  have "(\<lambda>k. (n(?k := n ?k + 1)) k
             + length (filter (\<lambda>defect. day_string (utc_day E defect) = k) defects))
        = (\<lambda>k. n k + length (filter (\<lambda>defect. day_string (utc_day E defect) = k)
                              (defect # defects)))"
    by (auto simp: fun_eq_iff)
  with cnt loop date show ?case
    by simp
qed

lemma day_string_mono:
  assumes "0 \<le> YearFromDay d1" "YearFromDay d1 \<le> 9999"
    and "0 \<le> YearFromDay d2" "YearFromDay d2 \<le> 9999"
    and "d1 < d2"
  shows "day_string d1 < day_string d2"
  unfolding day_string_def
  using assms by (intro date_string_mono) (simp_all add: YearFromTime_def Day_of_day)

lemma sorted_list_of_set_image_mono:
  fixes g :: "int \<Rightarrow> jsstring"
  assumes "finite S" and "\<And>a b. a \<in> S \<Longrightarrow> b \<in> S \<Longrightarrow> a < b \<Longrightarrow> g a < g b"
  shows "sorted_list_of_set (g ` S) = map g (sorted_list_of_set S)"
proof -
  let ?xs = "sorted_list_of_set S"
  have "sorted_wrt (<) ?xs"
    using assms(1) by (simp add: strict_sorted_iff)
  then have "sorted_wrt (\<lambda>a b. g a < g b) ?xs"
    by (rule sorted_wrt_mono_rel [rotated]) (use assms in simp)
  then have "sorted_wrt (<) (map g ?xs)"
    by (simp add: sorted_wrt_map)
  then have "sorted (map g ?xs)" "distinct (map g ?xs)"
    by (simp_all add: strict_sorted_iff)
  moreover have "set (map g ?xs) = g ` S"
    using assms(1) by simp
  ultimately show ?thesis
    using assms(1) by (intro sorted_distinct_set_unique) simp_all
qed

lemma slice_last_map: "slice_last n (map f xs) = map f (slice_last n xs)"
  by (simp add: slice_last_def drop_map)

lemma set_slice_last: "set (slice_last n xs) \<subseteq> set xs"
  by (simp add: slice_last_def set_drop_subset)

text \<open>
  C8, as the code has it. When every defect has a valid creation time whose UTC year has
  four digits (0000 to 9999), the time line has one bucket for each UTC calendar day on
  which a defect was created: the bucket counts the defects created on that UTC day, the
  buckets are in ascending order of the day (oldest first), only the last 30 of them are
  kept, and each is labelled with the browser's rendering of the day's date string
  \<^verbatim>\<open>YYYY-MM-DD\<close>. The client's time zone plays no part in the grouping.
\<close>

theorem timeline_buckets_by_utc_day:
  assumes "\<forall>defect \<in> set defects.
             \<exists>t. new_Date E (field defect (js ''createdAt'')) = Some t
                 \<and> 0 \<le> YearFromTime t \<and> YearFromTime t \<le> 9999"
  shows "getTimelineData E toLocaleDateString defects =
           Some (map (\<lambda>d. (toLocaleDateString (day_string d),
                            CNum (length (filter (\<lambda>defect. utc_day E defect = d) defects))))
                   (slice_last 30 (sorted_list_of_set (utc_day E ` set defects))))"
proof -
  let ?S = "utc_day E ` set defects"
  let ?N = "\<lambda>k. length (filter (\<lambda>defect. day_string (utc_day E defect) = k) defects)"
  let ?xs = "sorted_list_of_set ?S"
  have valid: "\<forall>defect \<in> set defects. \<exists>t. new_Date E (field defect (js ''createdAt'')) = Some t"
    using assms by blast
  have "counted [] (\<lambda>k. 0)"
    by (simp add: counted_def)
  from timeline_loop_counted [OF valid this]
  obtain timeline where loop: "timeline_loop E defects [] = Some timeline"
    and cnt: "counted timeline ?N"
    by auto
  have years: "0 \<le> YearFromDay d \<and> YearFromDay d \<le> 9999" if "d \<in> ?S" for d
  proof -
    from that obtain defect where defect: "defect \<in> set defects" and d: "d = utc_day E defect"
      by blast
    from assms defect obtain t where "new_Date E (field defect (js ''createdAt'')) = Some t"
      and "0 \<le> YearFromTime t" and "YearFromTime t \<le> 9999"
      by blast
    then show ?thesis
      by (simp add: d utc_day_def YearFromTime_def)
  qed
  have mono: "day_string a < day_string b" if "a \<in> ?S" "b \<in> ?S" "a < b" for a b
    using years [OF that(1)] years [OF that(2)] that(3) by (simp add: day_string_mono)
  have inj: "day_string a = day_string b \<longleftrightarrow> a = b" if "a \<in> ?S" "b \<in> ?S" for a b
  proof
    assume eq: "day_string a = day_string b"
    show "a = b"
    proof (rule ccontr)
      assume "a \<noteq> b"
      then consider "a < b" | "b < a"
        by linarith
      then show False
        using mono [OF that] mono [OF that(2,1)] eq by cases simp_all
    qed
  qed simp
  have "fst ` set timeline = {k. ?N k \<noteq> 0}"
    by (rule counted_keys [OF cnt])
  also have "\<dots> = day_string ` ?S"
    by (auto simp: filter_empty_conv)
  finally have keys: "fst ` set timeline = day_string ` ?S" .
  have "sorted_list_of_set (day_string ` ?S) = map day_string ?xs"
    by (rule sorted_list_of_set_image_mono) (simp_all add: mono)
  then have sorted: "sort_key fst timeline = map (\<lambda>d. (day_string d, CNum (?N (day_string d)))) ?xs"
    by (simp add: sort_counted [OF cnt] keys comp_def)
  have count: "?N (day_string d) = length (filter (\<lambda>defect. utc_day E defect = d) defects)"
    if "d \<in> ?S" for d
  proof -
    have "filter (\<lambda>defect. day_string (utc_day E defect) = day_string d) defects
            = filter (\<lambda>defect. utc_day E defect = d) defects"
      by (rule filter_cong) (simp_all add: inj that)
    then show ?thesis
      by simp
  qed
  have "map (\<lambda>d. (toLocaleDateString (day_string d), CNum (?N (day_string d))))
            (slice_last 30 ?xs)
        = map (\<lambda>d. (toLocaleDateString (day_string d),
                     CNum (length (filter (\<lambda>defect. utc_day E defect = d) defects))))
            (slice_last 30 ?xs)"
  proof (rule map_cong [OF refl])
    fix d
    assume "d \<in> set (slice_last 30 ?xs)"
    then have "d \<in> ?S"
      using set_slice_last [of 30 ?xs] by auto
    then show "(toLocaleDateString (day_string d), CNum (?N (day_string d)))
               = (toLocaleDateString (day_string d),
                  CNum (length (filter (\<lambda>defect. utc_day E defect = d) defects)))"
      by (simp only: count)
  qed
  then show ?thesis
    by (simp add: getTimelineData_def loop sorted slice_last_map comp_def)
qed

lemma scenario_times:
  "new_Date scenario_engine (field scenario_evening (js ''createdAt'')) = Some 79200000"
  "new_Date scenario_engine (field scenario_morning (js ''createdAt'')) = Some 122400000"
  by (simp_all add: new_Date_def scenario_engine_def scenario_evening_def scenario_morning_def
        field_Cons js_eq_iff)

lemma scenario_years: "YearFromTime 79200000 = 1970" "YearFromTime 122400000 = 1970"
  by code_simp+

lemma scenario_days: "Day 79200000 = 0" "Day 122400000 = 1"
  by (simp_all add: Day_def msPerDay_def)

lemma scenario_day_strings: "day_string 0 = js ''1970-01-01''" "day_string 1 = js ''1970-01-02''"
  by code_simp+

lemma scenario_utc_days:
  "utc_day scenario_engine scenario_evening = 0" "utc_day scenario_engine scenario_morning = 1"
  by (simp_all add: utc_day_def scenario_times scenario_days)

lemma scenario_distinct: "scenario_evening \<noteq> scenario_morning"
  by (simp add: scenario_evening_def scenario_morning_def js_eq_iff)

theorem timeline_buckets_by_utc_day_witness:
  "new_Date scenario_engine (field scenario_evening (js ''createdAt'')) = Some 79200000
   \<and> YearFromTime 79200000 = 1970
   \<and> new_Date scenario_engine (field scenario_morning (js ''createdAt'')) = Some 122400000
   \<and> YearFromTime 122400000 = 1970
   \<and> getTimelineData scenario_engine scenario_label
        [scenario_morning, scenario_evening, scenario_morning]
       = Some [(js ''1970-01-01'', CNum 1), (js ''1970-01-02'', CNum 2)]"
proof -
  have "\<forall>defect \<in> set [scenario_morning, scenario_evening, scenario_morning].
          \<exists>t. new_Date scenario_engine (field defect (js ''createdAt'')) = Some t
              \<and> 0 \<le> YearFromTime t \<and> YearFromTime t \<le> 9999"
    by (simp add: scenario_times scenario_years)
  from timeline_buckets_by_utc_day [OF this, of scenario_label]
  have r: "getTimelineData scenario_engine scenario_label
          [scenario_morning, scenario_evening, scenario_morning]
        = Some (map (\<lambda>d. (scenario_label (day_string d),
                       CNum (length (filter (\<lambda>defect. utc_day scenario_engine defect = d)
                                      [scenario_morning, scenario_evening, scenario_morning]))))
                  (slice_last 30 (sorted_list_of_set
                     (utc_day scenario_engine
                        ` set [scenario_morning, scenario_evening, scenario_morning]))))" .
  have s: "utc_day scenario_engine ` set [scenario_morning, scenario_evening, scenario_morning]
             = set [0, 1]"
    by (auto simp: scenario_utc_days)
  have l: "slice_last 30 (sorted_list_of_set (set [0, 1 :: int])) = [0, 1]"
    by (simp add: sorted_list_of_set_sort_remdups slice_last_def)
  have "getTimelineData scenario_engine scenario_label
          [scenario_morning, scenario_evening, scenario_morning]
        = Some [(js ''1970-01-01'', CNum 1), (js ''1970-01-02'', CNum 2)]"
    unfolding r s l
    by (simp add: scenario_utc_days scenario_label_def scenario_day_strings)
  then show ?thesis
    by (simp add: scenario_times scenario_years)
qed

text \<open>
  The claim C8 as it is worded fails. In a zone three hours east of UTC, 1 January 1970
  22:00 UTC and 2 January 1970 10:00 UTC fall on the same local calendar day, yet the two
  defects are counted in two buckets, one for each UTC day.
\<close>

theorem timeline_splits_local_day:
  "local_day 10800000 79200000 = local_day 10800000 122400000
   \<and> new_Date scenario_engine (field scenario_evening (js ''createdAt'')) = Some 79200000
   \<and> new_Date scenario_engine (field scenario_morning (js ''createdAt'')) = Some 122400000
   \<and> getTimelineData scenario_engine scenario_label [scenario_evening, scenario_morning]
       = Some [(js ''1970-01-01'', CNum 1), (js ''1970-01-02'', CNum 1)]"
proof -
  have d: "timeline_date scenario_engine scenario_evening = Some (js ''1970-01-01'')"
    "timeline_date scenario_engine scenario_morning = Some (js ''1970-01-02'')"
    by (simp_all add: timeline_date_valid [OF scenario_times(1)]
          timeline_date_valid [OF scenario_times(2)] scenario_utc_days scenario_day_strings)
  have p: "map_of object_prototype (js ''1970-01-01'') = None"
    "map_of object_prototype (js ''1970-01-02'') = None"
    using date_string_plain [of "0 * msPerDay"] date_string_plain [of "1 * msPerDay"]
      scenario_day_strings
    by (simp_all add: day_string_def)
  have "js ''1970-01-01'' \<noteq> js ''__proto__''" "js ''1970-01-02'' \<noteq> js ''__proto__''"
    by (simp_all add: js_eq_iff)
  then have loop: "timeline_loop scenario_engine [scenario_evening, scenario_morning] []
               = Some [(js ''1970-01-01'', CNum 1), (js ''1970-01-02'', CNum 1)]"
    by (simp add: d bump_def set_cell_def next_cell_def p js_eq_iff)
  have "js ''1970-01-01'' \<le> js ''1970-01-02''"
    by (simp add: js_def list_le_def)
  then have "sorted (map fst [(js ''1970-01-01'', CNum 1), (js ''1970-01-02'', CNum (1::nat))])"
    by simp
  then have sorted:
    "sort_key fst [(js ''1970-01-01'', CNum 1), (js ''1970-01-02'', CNum (1::nat))]
       = [(js ''1970-01-01'', CNum 1), (js ''1970-01-02'', CNum 1)]"
    by (rule sort_key_id_if_sorted)
  have "getTimelineData scenario_engine scenario_label [scenario_evening, scenario_morning]
          = Some (map (\<lambda>(date, count). (scenario_label date, count))
                    (slice_last 30
                       (sort_key fst [(js ''1970-01-01'', CNum 1), (js ''1970-01-02'', CNum 1)])))"
    by (simp only: getTimelineData_def loop option.case)
  then have "getTimelineData scenario_engine scenario_label [scenario_evening, scenario_morning]
          = Some [(js ''1970-01-01'', CNum 1), (js ''1970-01-02'', CNum 1)]"
    unfolding sorted by (simp add: slice_last_def scenario_label_def)
  then show ?thesis
    by (simp add: scenario_times local_day_def msPerDay_def)
qed

end
